theory Spec2Isabelle
  imports Complex_Main "HOL-Library.Word"
begin

section \<open>Strings of the editor\<close>

text \<open>
  A JavaScript string is a sequence of UTF-16 code units, and \<open>length\<close>, \<open>slice\<close>,
  \<open>replace\<close> and \<open>===\<close> all work on code units. The line-separator sentinel of
  \<open>src/editor/index.tsx\<close> is U+21B5, one code unit, which no 8-bit character holds, so a
  string is a list of 16-bit words here.
\<close>

type_synonym jschar = "16 word"
type_synonym jsstring = "jschar list"

definition sentinel :: jschar where
  "sentinel = 0x21B5"

definition newline :: jschar where
  "newline = 0x0A"

definition dollar :: jschar where
  "dollar = 0x24"

definition ampersand :: jschar where
  "ampersand = 0x26"

definition backtick :: jschar where
  "backtick = 0x60"

definition apostrophe :: jschar where
  "apostrophe = 0x27"

text \<open>\<open>value.replace(/S/g, '\n')\<close> with \<open>S\<close> the sentinel: every sentinel becomes a newline.\<close>

definition replace_sentinel :: "jsstring \<Rightarrow> jsstring" where
  "replace_sentinel v = map (\<lambda>c. if c = sentinel then newline else c) v"

text \<open>
  \<open>s.slice(from, to)\<close> for offsets that are not negative: both ends are clamped to the
  length and an empty string comes back when \<open>to \<le> from\<close>.
\<close>

definition js_slice :: "nat \<Rightarrow> nat \<Rightarrow> 'a list \<Rightarrow> 'a list" where
  "js_slice from to s = take (to - from) (drop from s)"

text \<open>
  \<open>String.prototype.indexOf\<close> with a string pattern: the offset of the first occurrence,
  \<open>None\<close> for \<open>-1\<close>. The empty pattern occurs at offset 0.
\<close>

fun index_of :: "'a list \<Rightarrow> 'a list \<Rightarrow> nat option" where
  "index_of pat [] = (if pat = [] then Some 0 else None)"
| "index_of pat (c # s) =
     (if take (length pat) (c # s) = pat then Some 0
      else map_option Suc (index_of pat s))"

text \<open>
  The substitution that \<open>String.prototype.replace\<close> applies to a replacement given as a
  string (GetSubstitution of ECMA-262, with no capture groups as the pattern is a
  string): \<open>$$\<close> gives one dollar, \<open>$&\<close> the matched text, \<open>$`\<close> the text before the
  match, \<open>$'\<close> the text after it; every other character stands for itself.
\<close>

fun get_substitution :: "jsstring \<Rightarrow> jsstring \<Rightarrow> jsstring \<Rightarrow> jsstring \<Rightarrow> jsstring" where
  "get_substitution matched before after (c # d # r) =
     (if c = dollar \<and> d = dollar then dollar # get_substitution matched before after r
      else if c = dollar \<and> d = ampersand then matched @ get_substitution matched before after r
      else if c = dollar \<and> d = backtick then before @ get_substitution matched before after r
      else if c = dollar \<and> d = apostrophe then after @ get_substitution matched before after r
      else c # get_substitution matched before after (d # r))"
| "get_substitution matched before after r = r"

text \<open>\<open>s.replace(pat, rep)\<close> with strings \<open>pat\<close> and \<open>rep\<close>: the first occurrence only.\<close>

definition js_replace :: "jsstring \<Rightarrow> jsstring \<Rightarrow> jsstring \<Rightarrow> jsstring" where
  "js_replace s pat rep =
     (case index_of pat s of
        None \<Rightarrow> s
      | Some i \<Rightarrow>
          (let before = take i s; after = drop (i + length pat) s
           in before @ get_substitution pat before after rep @ after))"

section \<open>The static plugin registry\<close>

text \<open>
  \<open>Editor.plugins\<close> is an array of \<open>{comp, config}\<close>. Components are compared with
  \<open>===\<close>, so a component is its identity \<open>'c\<close>; a configuration object is an association
  list (a call of \<open>Editor.use\<close> without \<open>config\<close> passes the empty one, \<open>[]\<close>).
\<close>

type_synonym plugin_config = "(string \<times> string) list"

record 'c plugin =
  p_comp :: 'c
  p_config :: plugin_config

text \<open>
  The loop of \<open>Editor.use\<close> from index \<open>i\<close>: \<open>splice(i, 1, {comp, config})\<close> at the first
  index whose component is \<open>c\<close>, then return; \<open>push\<close> when the loop ends.
\<close>

function use_from :: "nat \<Rightarrow> 'c \<Rightarrow> plugin_config \<Rightarrow> 'c plugin list \<Rightarrow> 'c plugin list" where
  "use_from i c cfg ps =
     (if i < length ps then
        (if p_comp (ps ! i) = c then ps[i := \<lparr>p_comp = c, p_config = cfg\<rparr>]
         else use_from (Suc i) c cfg ps)
      else ps @ [\<lparr>p_comp = c, p_config = cfg\<rparr>])"
  by pat_completeness auto
termination
  by (relation "measure (\<lambda>(i, c, cfg, ps). length ps - i)") auto

declare use_from.simps [simp del]

definition use :: "'c \<Rightarrow> plugin_config \<Rightarrow> 'c plugin list \<Rightarrow> 'c plugin list" where
  "use c cfg ps = use_from 0 c cfg ps"

text \<open>\<open>Editor.unuse\<close>: \<open>splice(i, 1)\<close> at the first index whose component is \<open>c\<close>.\<close>

function unuse_from :: "nat \<Rightarrow> 'c \<Rightarrow> 'c plugin list \<Rightarrow> 'c plugin list" where
  "unuse_from i c ps =
     (if i < length ps then
        (if p_comp (ps ! i) = c then take i ps @ drop (Suc i) ps
         else unuse_from (Suc i) c ps)
      else ps)"
  by pat_completeness auto
termination
  by (relation "measure (\<lambda>(i, c, ps). length ps - i)") auto

declare unuse_from.simps [simp del]

definition unuse :: "'c \<Rightarrow> 'c plugin list \<Rightarrow> 'c plugin list" where
  "unuse c ps = unuse_from 0 c ps"

definition unuseAll :: "'c plugin list \<Rightarrow> 'c plugin list" where
  "unuseAll ps = []"

section \<open>The editor instance\<close>

datatype pane = Md | Html

datatype trigger = Both | BeforeRender | AfterRender

datatype sync_mode = RightFollowLeft | LeftFollowRight

text \<open>\<open>HtmlType\<close>: a string, or a rendered element (known by its identity).\<close>

datatype html_type = HtmlString jsstring | HtmlElement nat

text \<open>
  What the host's \<open>renderHTML\<close> returns: a plain value, a promise (with the value it
  resolves to, \<open>None\<close> when it rejects), or a function of no argument.
\<close>

datatype render_result =
    Plain html_type
  | Thenable "html_type option"
  | Thunk html_type

record selection =
  sel_start :: nat
  sel_end :: nat
  sel_text :: jsstring

text \<open>
  Modelled from the spec: the constant \<open>initialSelection\<close> of \<open>share/var\<close>, which is not
  among the sources. A selection has \<open>0 \<le> start \<le> end \<le> length text\<close> and holds the text
  between its offsets; the only selection that is one for every text, the empty text
  too, is the empty selection at offset 0.
\<close>

definition initialSelection :: selection where
  "initialSelection = \<lparr>sel_start = 0, sel_end = 0, sel_text = []\<rparr>"

text \<open>
  The elements behind the refs. The text area is the DOM text control (its value, its
  selection and its scroll height); the preview wrapper is a scrollable \<open>div\<close>; the
  CodeMirror instance gives \<open>doc.scrollTop\<close> and \<open>display.cursorDiv\<close>. Numbers that the
  scroll code divides and multiplies have the type \<open>'n\<close>, with \<open>/\<close> and \<open>*\<close> of that type:
  nothing is assumed about them, so what is proved holds for the arithmetic of doubles as
  for that of the rationals. A write to \<open>scrollTop\<close> stores the number written (the
  clamping a browser does is not modelled).
\<close>

record 'n textarea =
  ta_value :: jsstring
  selectionStart :: nat
  selectionEnd :: nat
  ta_scrollHeight :: 'n

record 'n wrapper =
  pw_scrollHeight :: 'n
  pw_scrollTop :: 'n

record 'n codemirror =
  doc_scrollTop :: 'n
  cursorDiv :: bool

text \<open>
  What the instance does to the outside, in order: calls of \<open>setState\<close>, calls of the
  host's callbacks, events given to the emitter, console output, and writes of a scroll
  offset. An event object of the browser is known by its identity.
\<close>

datatype 'n effect =
    SetStateText jsstring
  | SetStateHtml html_type
  | SetStateFullScreen bool
  | OnChange jsstring jsstring "nat option"
  | EmitChange jsstring "nat option" bool
  | EmitFullScreen bool
  | OnScroll nat pane
  | EmitScroll nat pane
  | ConsoleError string
  | Focus
  | ScrollWrite pane 'n

text \<open>
  Callbacks that wait for their turn: \<open>setTimeout(() => this.setSelection(sel))\<close>, the
  callback given to \<open>requestAnimationFrame\<close> (it closes over \<open>type\<close>), the host's render
  promise followed by \<open>setHtml\<close> and, when \<open>setText\<close> asked for it, by the notification
  after rendering, that notification alone when rendering was already done, and the
  promise of a placeholder with its token.
\<close>

datatype task =
    SetSelectionLater nat nat
  | AnimationFrame pane
  | HostRender "html_type option" "nat option option"
  | NotifyAfterRender "nat option"
  | PlaceholderSettles jsstring "jsstring option"

text \<open>
  The props that the code below reads, and the two entries of \<open>this.config\<close> that it
  reads (\<open>mergeConfig\<close> and \<open>defaultConfig\<close> are not among the sources: the configuration
  is taken as merged). \<open>None\<close> is \<open>undefined\<close>; for a callback only its presence counts.
\<close>

record props =
  p_value :: "jsstring option"
  p_defaultValue :: "jsstring option"
  p_renderHTML :: "(jsstring \<Rightarrow> render_result) option"
  p_onChange :: bool
  p_onScroll :: bool

record editor_config =
  onChangeTrigger :: "trigger option"
  syncScrollMode :: "sync_mode list option"

text \<open>
  The instance: \<open>this.props\<close> with \<open>this.config\<close>, \<open>this.state\<close> (text, html, fullScreen;
  the view flags, the table size and the plugin elements play no part below), the
  private fields of the scroll synchroniser, the refs (\<open>None\<close> is a ref whose \<open>current\<close> is
  \<open>null\<close>, or \<open>nodeEditor\<close> before \<open>onInit\<close>), the keyboard listeners (objects compared with
  \<open>===\<close>, so identities), and the two lists above. \<open>setState\<close> takes effect at once, as
  React does outside its own event handlers.
\<close>

record 'n editor =
  props :: props
  config :: editor_config
  state_text :: jsstring
  state_html :: html_type
  state_fullScreen :: bool
  hasContentChanged :: bool
  scrollScale :: 'n
  isSyncingScroll :: bool
  shouldSyncScroll :: pane
  nodeMdText :: "'n textarea option"
  nodeMdPreview :: "jsstring option"
  nodeMdPreviewWrapper :: "'n wrapper option"
  nodeEditor :: "'n codemirror option"
  keyboardListeners :: "nat list"
  trace :: "'n effect list"
  pending :: "task list"

section \<open>Construction and rendering\<close>

text \<open>
  \<open>a || b\<close> on strings that may be \<open>undefined\<close>: \<open>a\<close> when it is truthy (defined and not
  empty), \<open>b\<close> otherwise.
\<close>

definition js_or :: "jsstring option \<Rightarrow> jsstring option \<Rightarrow> jsstring option" where
  "js_or a b = (case a of None \<Rightarrow> b | Some s \<Rightarrow> if s = [] then b else Some s)"

text \<open>
  The constructor: \<open>(value || defaultValue || '')\<close> with the sentinel replaced, an empty
  rendered output, and the initial values of the private fields. The refs are \<open>null\<close>.
\<close>

definition constructor :: "props \<Rightarrow> editor_config \<Rightarrow> ('n :: {one, inverse, times}) editor" where
  "constructor p c =
     \<lparr>props = p,
      config = c,
      state_text =
        replace_sentinel
          (case js_or (js_or (p_value p) (p_defaultValue p)) (Some []) of
             None \<Rightarrow> [] | Some s \<Rightarrow> s),
      state_html = HtmlString [],
      state_fullScreen = False,
      hasContentChanged = True,
      scrollScale = 1,
      isSyncingScroll = False,
      shouldSyncScroll = Md,
      nodeMdText = None,
      nodeMdPreview = None,
      nodeMdPreviewWrapper = None,
      nodeEditor = None,
      keyboardListeners = [],
      trace = [],
      pending = []\<rparr>"

definition getMdValue :: "'n editor \<Rightarrow> jsstring" where
  "getMdValue ed = state_text ed"

text \<open>
  \<open>getHtmlValue\<close>: the stored string, or what the mounted preview component gives
  (\<open>nodeMdPreview\<close> holds the result of its \<open>getHtml()\<close>), or the empty string.
\<close>

definition getHtmlValue :: "'n editor \<Rightarrow> jsstring" where
  "getHtmlValue ed =
     (case state_html ed of
        HtmlString s \<Rightarrow> s
      | HtmlElement _ \<Rightarrow> (case nodeMdPreview ed of Some h \<Rightarrow> h | None \<Rightarrow> []))"

definition note_effect :: "'n effect \<Rightarrow> 'n editor \<Rightarrow> 'n editor" where
  "note_effect x ed = ed\<lparr>trace := trace ed @ [x]\<rparr>"

definition enqueue :: "task \<Rightarrow> 'n editor \<Rightarrow> 'n editor" where
  "enqueue t ed = ed\<lparr>pending := pending ed @ [t]\<rparr>"

text \<open>
  The promise that \<open>renderHTML\<close> returns: resolved already, or waiting for the host's
  promise (then \<open>setHtml\<close> runs with what it resolves to).
\<close>

datatype rendering = Resolved | Awaiting "html_type option"

text \<open>\<open>setHtml\<close>: \<open>setState({html}, resolve)\<close>, so its promise is resolved.\<close>

definition setHtml :: "html_type \<Rightarrow> 'n editor \<Rightarrow> 'n editor \<times> rendering" where
  "setHtml h ed = (note_effect (SetStateHtml h) (ed\<lparr>state_html := h\<rparr>), Resolved)"

definition renderHTML :: "jsstring \<Rightarrow> 'n editor \<Rightarrow> 'n editor \<times> rendering" where
  "renderHTML markdownText ed =
     (case p_renderHTML (props ed) of
        None \<Rightarrow> (note_effect (ConsoleError ''renderHTML props is required!'') ed, Resolved)
      | Some f \<Rightarrow>
          (case f markdownText of
             Thenable r \<Rightarrow> (ed, Awaiting r)
           | Thunk h \<Rightarrow> setHtml h ed
           | Plain h \<Rightarrow> setHtml h ed))"

text \<open>
  What becomes of a rendering promise: \<open>k = Some event\<close> is \<open>rendering.then\<close> of \<open>setText\<close>
  with the notification after rendering, \<open>k = None\<close> a promise that the caller drops. The
  callback of a resolved promise waits for its turn; a promise of the host waits with the
  callback behind it.
\<close>

definition on_rendered :: "rendering \<Rightarrow> nat option option \<Rightarrow> 'n editor \<Rightarrow> 'n editor" where
  "on_rendered r k ed =
     (case r of
        Resolved \<Rightarrow> (case k of None \<Rightarrow> ed | Some event \<Rightarrow> enqueue (NotifyAfterRender event) ed)
      | Awaiting h \<Rightarrow> enqueue (HostRender h k) ed)"

definition componentDidMount :: "'n editor \<Rightarrow> 'n editor" where
  "componentDidMount ed =
     (case renderHTML (state_text ed) ed of (ed', r) \<Rightarrow> on_rendered r None ed')"

text \<open>
  \<open>componentDidUpdate\<close>, for the part on \<open>props.value\<close> (the props are the new ones
  already): a value that differs from the text, also once its sentinels are replaced, is
  stored and rendered.
\<close>

definition componentDidUpdate :: "'n editor \<Rightarrow> 'n editor" where
  "componentDidUpdate ed =
     (case p_value (props ed) of
        None \<Rightarrow> ed
      | Some v \<Rightarrow>
          if v \<noteq> state_text ed then
            (let v' = replace_sentinel v
             in if state_text ed \<noteq> v' then
                  (case renderHTML v' (note_effect (SetStateText v') (ed\<lparr>state_text := v'\<rparr>)) of
                     (ed', r) \<Rightarrow> on_rendered r None ed')
                else ed)
          else ed)"

section \<open>Selection\<close>

text \<open>
  \<open>setSelectionRange\<close> of the DOM text control: offsets beyond the value point at its
  end, and an end that is not after the start puts both at the end.
\<close>

definition setSelectionRange :: "nat \<Rightarrow> nat \<Rightarrow> 'n textarea \<Rightarrow> 'n textarea" where
  "setSelectionRange s e ta =
     (let n = length (ta_value ta); s' = min s n; e' = min e n
      in if e' \<le> s' then ta\<lparr>selectionStart := e', selectionEnd := e'\<rparr>
         else ta\<lparr>selectionStart := s', selectionEnd := e'\<rparr>)"

definition getSelection :: "'n editor \<Rightarrow> selection" where
  "getSelection ed =
     (case nodeMdText ed of
        None \<Rightarrow> initialSelection
      | Some source \<Rightarrow>
          \<lparr>sel_start = selectionStart source,
           sel_end = selectionEnd source,
           sel_text = js_slice (selectionStart source) (selectionEnd source) (ta_value source)\<rparr>)"

definition setSelection :: "nat \<times> nat \<Rightarrow> 'n editor \<Rightarrow> 'n editor" where
  "setSelection to ed =
     (case nodeMdText ed of
        None \<Rightarrow> ed
      | Some ta \<Rightarrow> note_effect Focus (ed\<lparr>nodeMdText := Some (setSelectionRange (fst to) (snd to) ta)\<rparr>))"

section \<open>Text mutation\<close>

text \<open>
  \<open>setText(value, event, newSelection)\<close>. The text with the sentinels replaced is
  computed first; the test for "nothing to do" compares the stored text with \<open>value\<close>
  as it was given.
\<close>

definition setText :: "jsstring \<Rightarrow> nat option \<Rightarrow> (nat \<times> nat) option \<Rightarrow> 'n editor \<Rightarrow> 'n editor" where
  "setText v event newSelection ed =
     (let trig = (case onChangeTrigger (config ed) of None \<Rightarrow> Both | Some t \<Rightarrow> t);
          text = replace_sentinel v
      in if state_text ed = v then ed
         else
           (let ed1 = note_effect (SetStateText text) (ed\<lparr>state_text := text\<rparr>);
                ed2 = (if p_onChange (props ed1) \<and> (trig = Both \<or> trig = BeforeRender)
                       then note_effect (OnChange text (getHtmlValue ed1) event) ed1 else ed1);
                ed3 = note_effect (EmitChange v event (event = None)) ed2;
                ed4 = (case newSelection of
                         None \<Rightarrow> ed3
                       | Some (s, e) \<Rightarrow> enqueue (SetSelectionLater s e) ed3);
                ed5 = (if \<not> hasContentChanged ed4 then ed4\<lparr>hasContentChanged := True\<rparr> else ed4)
            in case renderHTML text ed5 of
                 (ed6, r) \<Rightarrow>
                   if trig = Both \<or> trig = AfterRender then on_rendered r (Some event) ed6
                   else on_rendered r None ed6))"

definition insertText :: "jsstring \<Rightarrow> bool \<Rightarrow> (nat \<times> nat) option \<Rightarrow> 'n editor \<Rightarrow> 'n editor" where
  "insertText v replaceSelected newSelection ed =
     (let text = state_text ed;
          selection = getSelection ed;
          beforeContent = js_slice 0 (sel_start selection) text;
          afterContent =
            js_slice (if replaceSelected then sel_end selection else sel_start selection)
              (length text) text
      in setText (beforeContent @ v @ afterContent) None
           (Some (case newSelection of
                    Some (s, e) \<Rightarrow> (s + length beforeContent, e + length beforeContent)
                  | None \<Rightarrow> (sel_start selection, sel_start selection)))
           ed)"

text \<open>
  \<open>insertPlaceholder(placeholder, wait)\<close>: the token is inserted, and the callback of
  \<open>wait.then\<close> is left waiting (\<open>wait\<close> is the string the promise resolves to, \<open>None\<close> when
  it rejects). \<open>placeholder_resolved\<close> is that callback.
\<close>

definition insertPlaceholder :: "jsstring \<Rightarrow> jsstring option \<Rightarrow> 'n editor \<Rightarrow> 'n editor" where
  "insertPlaceholder placeholder wait ed =
     enqueue (PlaceholderSettles placeholder wait) (insertText placeholder True None ed)"

definition placeholder_resolved :: "jsstring \<Rightarrow> jsstring \<Rightarrow> 'n editor \<Rightarrow> 'n editor" where
  "placeholder_resolved placeholder str ed =
     setText (js_replace (getMdValue ed) placeholder str) None None ed"

section \<open>Full screen and keyboard listeners\<close>

definition isFullScreen :: "'n editor \<Rightarrow> bool" where
  "isFullScreen ed = state_fullScreen ed"

definition fullScreen :: "bool \<Rightarrow> 'n editor \<Rightarrow> 'n editor" where
  "fullScreen enable ed =
     (if state_fullScreen ed \<noteq> enable then
        note_effect (EmitFullScreen enable)
          (note_effect (SetStateFullScreen enable) (ed\<lparr>state_fullScreen := enable\<rparr>))
      else ed)"

text \<open>\<open>Array.prototype.indexOf\<close>: the first index of an element, \<open>None\<close> for \<open>-1\<close>.\<close>

fun indexOf :: "'a \<Rightarrow> 'a list \<Rightarrow> nat option" where
  "indexOf x [] = None"
| "indexOf x (y # ys) = (if y = x then Some 0 else map_option Suc (indexOf x ys))"

text \<open>The argument of \<open>onKeyboard\<close> and \<open>offKeyboard\<close>: one listener or an array of them.\<close>

datatype listeners = One nat | Many "nat list"

definition onKeyboard1 :: "nat \<Rightarrow> 'n editor \<Rightarrow> 'n editor" where
  "onKeyboard1 d ed =
     (if d \<notin> set (keyboardListeners ed)
      then ed\<lparr>keyboardListeners := keyboardListeners ed @ [d]\<rparr> else ed)"

definition onKeyboard :: "listeners \<Rightarrow> 'n editor \<Rightarrow> 'n editor" where
  "onKeyboard d ed = (case d of One x \<Rightarrow> onKeyboard1 x ed | Many xs \<Rightarrow> fold onKeyboard1 xs ed)"

definition offKeyboard1 :: "nat \<Rightarrow> 'n editor \<Rightarrow> 'n editor" where
  "offKeyboard1 d ed =
     (case indexOf d (keyboardListeners ed) of
        Some i \<Rightarrow>
          ed\<lparr>keyboardListeners := take i (keyboardListeners ed) @ drop (Suc i) (keyboardListeners ed)\<rparr>
      | None \<Rightarrow> ed)"

definition offKeyboard :: "listeners \<Rightarrow> 'n editor \<Rightarrow> 'n editor" where
  "offKeyboard d ed = (case d of One x \<Rightarrow> offKeyboard1 x ed | Many xs \<Rightarrow> fold offKeyboard1 xs ed)"

section \<open>Scroll synchronisation\<close>

definition handleSyncScroll :: "pane \<Rightarrow> nat \<Rightarrow> ('n :: {one, inverse, times}) editor \<Rightarrow> 'n editor" where
  "handleSyncScroll type e ed =
     (if type \<noteq> shouldSyncScroll ed then ed
      else
        (let ed1 = (if p_onScroll (props ed) then note_effect (OnScroll e type) ed else ed);
             ed2 = note_effect (EmitScroll e type) ed1;
             modes = (case syncScrollMode (config ed2) of None \<Rightarrow> [] | Some m \<Rightarrow> m)
         in if (if type = Md then RightFollowLeft else LeftFollowRight) \<notin> set modes then ed2
            else
              (let ed3 =
                     (case (hasContentChanged ed2, nodeMdText ed2, nodeMdPreviewWrapper ed2) of
                        (True, Some ta, Some pw) \<Rightarrow>
                          ed2\<lparr>scrollScale := ta_scrollHeight ta / pw_scrollHeight pw,
                              hasContentChanged := False\<rparr>
                      | _ \<Rightarrow> ed2)
               in if \<not> isSyncingScroll ed3
                  then enqueue (AnimationFrame type) (ed3\<lparr>isSyncingScroll := True\<rparr>)
                  else ed3)))"

text \<open>
  The callback given to \<open>requestAnimationFrame\<close>. Reading \<open>this.nodeEditor.display\<close>
  while \<open>nodeEditor\<close> is still \<open>undefined\<close> throws a TypeError, and the flag stays set.
\<close>

datatype error = TypeError

definition animation_frame :: "pane \<Rightarrow> ('n :: {one, inverse, times}) editor \<Rightarrow> error + 'n editor" where
  "animation_frame type ed =
     (case nodeEditor ed of
        None \<Rightarrow> Inl TypeError
      | Some cm \<Rightarrow>
          (let ed1 =
                 (case (cursorDiv cm, nodeMdPreviewWrapper ed) of
                    (True, Some pw) \<Rightarrow>
                      if type = Md then
                        note_effect (ScrollWrite Html (doc_scrollTop cm / scrollScale ed))
                          (ed\<lparr>nodeMdPreviewWrapper :=
                                Some (pw\<lparr>pw_scrollTop := doc_scrollTop cm / scrollScale ed\<rparr>)\<rparr>)
                      else
                        note_effect (ScrollWrite Md (pw_scrollTop pw * scrollScale ed))
                          (ed\<lparr>nodeEditor :=
                                Some (cm\<lparr>doc_scrollTop := pw_scrollTop pw * scrollScale ed\<rparr>)\<rparr>)
                  | _ \<Rightarrow> ed)
           in Inr (ed1\<lparr>isSyncingScroll := False\<rparr>)))"

section \<open>Running a waiting callback\<close>

definition run_task :: "task \<Rightarrow> ('n :: {one, inverse, times}) editor \<Rightarrow> error + 'n editor" where
  "run_task t ed =
     (case t of
        SetSelectionLater s e \<Rightarrow> Inr (setSelection (s, e) ed)
      | AnimationFrame type \<Rightarrow> animation_frame type ed
      | HostRender r k \<Rightarrow>
          (case r of
             None \<Rightarrow> Inr ed
           | Some h \<Rightarrow> Inr (on_rendered Resolved k (fst (setHtml h ed))))
      | NotifyAfterRender event \<Rightarrow>
          Inr (if p_onChange (props ed)
               then note_effect (OnChange (state_text ed) (getHtmlValue ed) event) ed else ed)
      | PlaceholderSettles placeholder wait \<Rightarrow>
          (case wait of
             None \<Rightarrow> Inr ed
           | Some str \<Rightarrow> Inr (placeholder_resolved placeholder str ed)))"

text \<open>The \<open>i\<close>-th waiting callback leaves the list and runs.\<close>

definition dequeue :: "nat \<Rightarrow> 'n editor \<Rightarrow> 'n editor" where
  "dequeue i ed = ed\<lparr>pending := take i (pending ed) @ drop (Suc i) (pending ed)\<rparr>"

definition run_pending :: "nat \<Rightarrow> ('n :: {one, inverse, times}) editor \<Rightarrow> error + 'n editor" where
  "run_pending i ed =
     (if i < length (pending ed) then run_task (pending ed ! i) (dequeue i ed) else Inr ed)"

text \<open>A burst of scroll events, each with its pane and its event object.\<close>

definition scroll_events ::
  "(pane \<times> nat) list \<Rightarrow> ('n :: {one, inverse, times}) editor \<Rightarrow> 'n editor" where
  "scroll_events evs ed = fold (\<lambda>(type, e). handleSyncScroll type e) evs ed"

text \<open>The animation-frame callbacks that wait, and the scroll writes done so far.\<close>

definition frames :: "'n editor \<Rightarrow> task list" where
  "frames ed = filter (\<lambda>t. case t of AnimationFrame _ \<Rightarrow> True | _ \<Rightarrow> False) (pending ed)"

definition scroll_writes :: "'n editor \<Rightarrow> 'n effect list" where
  "scroll_writes ed = filter (\<lambda>x. case x of ScrollWrite _ _ \<Rightarrow> True | _ \<Rightarrow> False) (trace ed)"

definition text_changes :: "'n editor \<Rightarrow> 'n effect list" where
  "text_changes ed = filter (\<lambda>x. case x of SetStateText _ \<Rightarrow> True | _ \<Rightarrow> False) (trace ed)"

definition change_events :: "'n editor \<Rightarrow> 'n effect list" where
  "change_events ed = filter (\<lambda>x. case x of EmitChange _ _ _ \<Rightarrow> True | _ \<Rightarrow> False) (trace ed)"

section \<open>The states an instance can reach\<close>

text \<open>
  What happens to an instance after its constructor: it is mounted, the browser attaches
  and changes the elements behind the refs (any change is allowed here), the pointer
  moves over the preview (the only handler that sets \<open>shouldSyncScroll\<close>), the host gives
  new props, calls a public method, a scroll event arrives, or the \<open>i\<close>-th waiting
  callback runs. A callback that throws has left the list all the same.
\<close>

datatype 'n action =
    Mount
  | Dom "'n textarea option" "jsstring option" "'n wrapper option" "'n codemirror option"
  | Hover
  | NewProps props
  | SetText jsstring "nat option" "(nat \<times> nat) option"
  | InsertText jsstring bool "(nat \<times> nat) option"
  | InsertPlaceholder jsstring "jsstring option"
  | SetSelection "nat \<times> nat"
  | FullScreen bool
  | OnKeyboard listeners
  | OffKeyboard listeners
  | Scroll pane nat
  | Run nat

definition step ::
  "'n action \<Rightarrow> ('n :: {one, inverse, times}) editor \<Rightarrow> error option \<times> 'n editor" where
  "step a ed =
     (case a of
        Mount \<Rightarrow> (None, componentDidMount ed)
      | Dom t v w m \<Rightarrow>
          (None, ed\<lparr>nodeMdText := t, nodeMdPreview := v, nodeMdPreviewWrapper := w,
                     nodeEditor := m\<rparr>)
      | Hover \<Rightarrow> (None, ed\<lparr>shouldSyncScroll := Html\<rparr>)
      | NewProps p \<Rightarrow> (None, componentDidUpdate (ed\<lparr>props := p\<rparr>))
      | SetText v event sel \<Rightarrow> (None, setText v event sel ed)
      | InsertText v replaceSelected sel \<Rightarrow> (None, insertText v replaceSelected sel ed)
      | InsertPlaceholder placeholder wait \<Rightarrow> (None, insertPlaceholder placeholder wait ed)
      | SetSelection to \<Rightarrow> (None, setSelection to ed)
      | FullScreen enable \<Rightarrow> (None, fullScreen enable ed)
      | OnKeyboard d \<Rightarrow> (None, onKeyboard d ed)
      | OffKeyboard d \<Rightarrow> (None, offKeyboard d ed)
      | Scroll type e \<Rightarrow> (None, handleSyncScroll type e ed)
      | Run i \<Rightarrow>
          (case run_pending i ed of
             Inr ed' \<Rightarrow> (None, ed')
           | Inl err \<Rightarrow> (Some err, dequeue i ed)))"

inductive reachable :: "('n :: {one, inverse, times}) editor \<Rightarrow> bool" where
  r_init: "reachable (constructor p c)"
| r_step: "reachable ed \<Longrightarrow> reachable (snd (step a ed))"

definition other :: "pane \<Rightarrow> pane" where
  "other type = (case type of Md \<Rightarrow> Html | Html \<Rightarrow> Md)"

text \<open>
  \<open>render()\<close> gives the ref \<open>nodeMdText\<close> to no element: the only \<open>ref={this.nodeMdText}\<close>
  is on the text area inside the JSX comment, and the edit pane is the CodeMirror
  component. So the program never attaches a text area, and its states are those reached
  by steps that attach none.
\<close>

definition attaches_textarea :: "'n action \<Rightarrow> bool" where
  "attaches_textarea a = (case a of Dom (Some _) _ _ _ \<Rightarrow> True | _ \<Rightarrow> False)"

inductive rendered :: "('n :: {one, inverse, times}) editor \<Rightarrow> bool" where
  rendered_init: "rendered (constructor p c)"
| rendered_step: "rendered ed \<Longrightarrow> \<not> attaches_textarea a \<Longrightarrow> rendered (snd (step a ed))"

text \<open>
  No text area, the ratio at its initial value, and the content marked as changed.
\<close>

definition unsynced :: "('n :: {one, inverse, times}) editor \<Rightarrow> bool" where
  "unsynced ed \<longleftrightarrow> nodeMdText ed = None \<and> scrollScale ed = 1 \<and> hasContentChanged ed"

text \<open>
  At most one animation-frame callback waits, and one waits only while the syncing flag is
  set.
\<close>

definition coalesced :: "'n editor \<Rightarrow> bool" where
  "coalesced ed \<longleftrightarrow> length (frames ed) \<le> 1 \<and> (frames ed \<noteq> [] \<longrightarrow> isSyncingScroll ed)"

section \<open>Example states\<close>

definition registry3 :: "nat plugin list" where
  "registry3 =
     [\<lparr>p_comp = 1, p_config = []\<rparr>, \<lparr>p_comp = 2, p_config = []\<rparr>, \<lparr>p_comp = 3, p_config = []\<rparr>]"

definition props0 :: props where
  "props0 = \<lparr>p_value = None, p_defaultValue = None, p_renderHTML = None,
              p_onChange = False, p_onScroll = False\<rparr>"

definition config0 :: editor_config where
  "config0 = \<lparr>onChangeTrigger = None, syncScrollMode = None\<rparr>"

definition editor0 :: "rat editor" where
  "editor0 = constructor props0 config0"

definition text_a_sentinel_b :: jsstring where
  "text_a_sentinel_b = [0x61, 0x21B5, 0x62]"

definition config_sync :: editor_config where
  "config_sync = \<lparr>onChangeTrigger = None, syncScrollMode = Some [RightFollowLeft, LeftFollowRight]\<rparr>"

definition textarea0 :: "rat textarea" where
  "textarea0 = \<lparr>ta_value = [], selectionStart = 0, selectionEnd = 0, ta_scrollHeight = 200\<rparr>"

definition wrapper0 :: "rat wrapper" where
  "wrapper0 = \<lparr>pw_scrollHeight = 100, pw_scrollTop = 0\<rparr>"

definition codemirror0 :: "rat codemirror" where
  "codemirror0 = \<lparr>doc_scrollTop = 50, cursorDiv = True\<rparr>"

definition editor_sync :: "rat editor" where
  "editor_sync =
     snd (step (Dom (Some textarea0) None (Some wrapper0) (Some codemirror0))
            (constructor props0 config_sync))"

definition editor_scrolled :: "rat editor" where
  "editor_scrolled = snd (step (Scroll Md 1) editor_sync)"

definition text_abc :: jsstring where
  "text_abc = [0x61, 0x62, 0x63]"

definition props_host :: props where
  "props_host = \<lparr>p_value = None, p_defaultValue = None,
                 p_renderHTML = Some (\<lambda>t. Plain (HtmlString t)),
                 p_onChange = True, p_onScroll = False\<rparr>"

definition editor_host :: "rat editor" where
  "editor_host = constructor props_host config0"

text \<open>
  An instance as the program mounts it: text \<open>abc\<close>, a render function and an \<open>onChange\<close>
  callback, both sync directions enabled, the preview wrapper (scroll height 100) and the
  CodeMirror instance (scroll offset 50) in place, and no text area.
\<close>

definition editor_rendered :: "rat editor" where
  "editor_rendered =
     snd (step (Dom None None (Some wrapper0) (Some codemirror0))
            (snd (step Mount (constructor (props_host\<lparr>p_value := Some text_abc\<rparr>) config_sync))))"

definition token_X :: jsstring where
  "token_X = [0x58]"

section \<open>Properties of the registry and the editor\<close>

subsection \<open>The plugin registry\<close>

lemma use_from_append:
  "\<forall>j. i \<le> j \<and> j < length ps \<longrightarrow> p_comp (ps ! j) \<noteq> c \<Longrightarrow>
   use_from i c cfg ps = ps @ [\<lparr>p_comp = c, p_config = cfg\<rparr>]"
proof (induction i c cfg ps rule: use_from.induct)
  case (1 i c cfg ps)
  show ?case
  proof (cases "i < length ps")
    case True
    then have ne: "p_comp (ps ! i) \<noteq> c" using "1.prems" by simp
    have "use_from (Suc i) c cfg ps = ps @ [\<lparr>p_comp = c, p_config = cfg\<rparr>]"
      using "1.IH" [OF True ne] "1.prems" by simp
    then show ?thesis using True ne by (simp add: use_from.simps [of i])
  next
    case False
    then show ?thesis by (simp add: use_from.simps [of i])
  qed
qed

lemma use_from_replace:
  "i \<le> k \<Longrightarrow> k < length ps \<Longrightarrow> p_comp (ps ! k) = c \<Longrightarrow>
   \<forall>j. i \<le> j \<and> j < k \<longrightarrow> p_comp (ps ! j) \<noteq> c \<Longrightarrow>
   use_from i c cfg ps = ps[k := \<lparr>p_comp = c, p_config = cfg\<rparr>]"
proof (induction i c cfg ps rule: use_from.induct)
  case (1 i c cfg ps)
  have lt: "i < length ps" using "1.prems" by simp
  show ?case
  proof (cases "i = k")
    case True
    then show ?thesis using "1.prems" by (simp add: use_from.simps [of k])
  next
    case False
    then have ik: "Suc i \<le> k" using "1.prems" by simp
    have ne: "p_comp (ps ! i) \<noteq> c" using "1.prems" False by simp
    have "use_from (Suc i) c cfg ps = ps[k := \<lparr>p_comp = c, p_config = cfg\<rparr>]"
      using "1.IH" [OF lt ne ik] "1.prems" by simp
    then show ?thesis using lt ne by (simp add: use_from.simps [of i])
  qed
qed

lemma first_occurrence:
  "c \<in> p_comp ` set ps \<Longrightarrow>
   \<exists>k<length ps. p_comp (ps ! k) = c \<and> (\<forall>j<k. p_comp (ps ! j) \<noteq> c)"
proof -
  assume "c \<in> p_comp ` set ps"
  then obtain m where m: "m < length ps" "p_comp (ps ! m) = c"
    by (auto simp: in_set_conv_nth)
  define k where "k = (LEAST n. n < length ps \<and> p_comp (ps ! n) = c)"
  have a: "k < length ps \<and> p_comp (ps ! k) = c"
    unfolding k_def by (rule LeastI [of _ m]) (simp add: m)
  have b: "\<forall>j<k. p_comp (ps ! j) \<noteq> c"
  proof (intro allI impI)
    fix j assume jk: "j < k"
    show "p_comp (ps ! j) \<noteq> c"
    proof
      assume "p_comp (ps ! j) = c"
      then have "j < length ps \<and> p_comp (ps ! j) = c" using jk a by simp
      then have "k \<le> j" unfolding k_def by (rule Least_le)
      then show False using jk by simp
    qed
  qed
  show ?thesis using a b by blast
qed

lemma count_update_same:
  "k < length ps \<Longrightarrow> p_comp (ps ! k) = c \<Longrightarrow>
   length (filter (\<lambda>p. p_comp p = c) (ps[k := \<lparr>p_comp = c, p_config = cfg\<rparr>]))
     = length (filter (\<lambda>p. p_comp p = c) ps)"
proof (induction ps arbitrary: k)
  case Nil
  then show ?case by simp
next
  case (Cons p ps)
  then show ?case by (cases k) auto
qed

text \<open>
  C7. Registering with \<open>Editor.use\<close> a component that the registry already holds
  replaces its first entry where it stands: the registry keeps its length, the number of
  entries of that component does not grow, and every other position keeps its entry.
  Registering a component that the registry does not hold appends the entry at the end.
\<close>

theorem use_replace_or_append:
  "(c \<in> p_comp ` set ps \<longrightarrow>
      (\<exists>k<length ps. p_comp (ps ! k) = c \<and> (\<forall>j<k. p_comp (ps ! j) \<noteq> c) \<and>
         use c cfg ps = ps[k := \<lparr>p_comp = c, p_config = cfg\<rparr>]) \<and>
      length (use c cfg ps) = length ps \<and>
      length (filter (\<lambda>p. p_comp p = c) (use c cfg ps)) = length (filter (\<lambda>p. p_comp p = c) ps)) \<and>
   (c \<notin> p_comp ` set ps \<longrightarrow> use c cfg ps = ps @ [\<lparr>p_comp = c, p_config = cfg\<rparr>])"
proof -
  have A: "use c cfg ps = ps @ [\<lparr>p_comp = c, p_config = cfg\<rparr>]" if "c \<notin> p_comp ` set ps"
  proof -
    have "\<forall>j. 0 \<le> j \<and> j < length ps \<longrightarrow> p_comp (ps ! j) \<noteq> c"
    proof (intro allI impI)
      fix j assume "0 \<le> j \<and> j < length ps"
      then have "ps ! j \<in> set ps" by simp
      then show "p_comp (ps ! j) \<noteq> c" using that by force
    qed
    then show ?thesis unfolding use_def by (rule use_from_append)
  qed
  have B: "(\<exists>k<length ps. p_comp (ps ! k) = c \<and> (\<forall>j<k. p_comp (ps ! j) \<noteq> c) \<and>
         use c cfg ps = ps[k := \<lparr>p_comp = c, p_config = cfg\<rparr>]) \<and>
      length (use c cfg ps) = length ps \<and>
      length (filter (\<lambda>p. p_comp p = c) (use c cfg ps)) = length (filter (\<lambda>p. p_comp p = c) ps)"
    if "c \<in> p_comp ` set ps"
  proof -
    from first_occurrence [OF that]
    obtain k where k: "k < length ps" "p_comp (ps ! k) = c" "\<forall>j<k. p_comp (ps ! j) \<noteq> c"
      by blast
    have "\<forall>j. 0 \<le> j \<and> j < k \<longrightarrow> p_comp (ps ! j) \<noteq> c" using k(3) by simp
    then have "use_from 0 c cfg ps = ps[k := \<lparr>p_comp = c, p_config = cfg\<rparr>]"
      using k(1) k(2) by (intro use_from_replace) simp_all
    then have eq: "use c cfg ps = ps[k := \<lparr>p_comp = c, p_config = cfg\<rparr>]"
      by (simp add: use_def)
    have l: "length (use c cfg ps) = length ps" by (simp add: eq)
    have f: "length (filter (\<lambda>p. p_comp p = c) (use c cfg ps)) = length (filter (\<lambda>p. p_comp p = c) ps)"
      by (simp only: eq count_update_same [OF k(1) k(2)])
    from k eq l f show ?thesis by blast
  qed
  from A B show ?thesis by blast
qed

theorem use_replace_or_append_witness:
  "(2::nat) \<in> p_comp ` set registry3 \<and> 4 \<notin> p_comp ` set registry3 \<and>
   length (use 2 [(''k'', ''v'')] registry3) = length registry3 \<and>
   length (filter (\<lambda>p. p_comp p = 2) (use 2 [(''k'', ''v'')] registry3)) = 1 \<and>
   use 4 [] registry3 = registry3 @ [\<lparr>p_comp = 4, p_config = []\<rparr>]"
proof -
  have a: "(2::nat) \<in> p_comp ` set registry3" by (simp add: registry3_def)
  have b: "(4::nat) \<notin> p_comp ` set registry3" by (simp add: registry3_def)
  note r = use_replace_or_append [of 2 registry3 "[(''k'', ''v'')]", THEN conjunct1, THEN mp, OF a]
  note n = use_replace_or_append [of 4 registry3 "[]", THEN conjunct2, THEN mp, OF b]
  have c: "length (filter (\<lambda>p. p_comp p = 2) registry3) = 1" by (simp add: registry3_def)
  show ?thesis using a b r n c by simp
qed

subsection \<open>Full screen\<close>

text \<open>
  C9. \<open>fullScreen(b)\<close> on an instance whose \<open>isFullScreen()\<close> is \<open>b\<close> already changes
  nothing and emits nothing. When the flag differs it becomes \<open>b\<close>, one \<open>setState\<close> and
  one \<open>fullscreen\<close> event carrying \<open>b\<close> are added to what the instance did, and nothing
  else of the instance changes.
\<close>

theorem fullScreen_frame:
  "(isFullScreen ed = b \<longrightarrow> fullScreen b ed = ed) \<and>
   (isFullScreen ed \<noteq> b \<longrightarrow>
      isFullScreen (fullScreen b ed) = b \<and>
      trace (fullScreen b ed) = trace ed @ [SetStateFullScreen b, EmitFullScreen b] \<and>
      fullScreen b ed = ed\<lparr>state_fullScreen := b, trace := trace (fullScreen b ed)\<rparr>)"
  by (simp add: fullScreen_def isFullScreen_def note_effect_def)

theorem fullScreen_frame_witness:
  "isFullScreen editor0 = False \<and> fullScreen False editor0 = editor0 \<and>
   isFullScreen (fullScreen True editor0) = True \<and>
   trace (fullScreen True editor0) = [SetStateFullScreen True, EmitFullScreen True]"
proof -
  have a: "isFullScreen editor0 = False" "trace editor0 = []"
    by (simp_all add: editor0_def constructor_def isFullScreen_def)
  have b: "isFullScreen editor0 \<noteq> True" using a by simp
  note n = fullScreen_frame [of editor0 False, THEN conjunct1, THEN mp, OF a(1)]
  note y = fullScreen_frame [of editor0 True, THEN conjunct2, THEN mp, OF b]
  show ?thesis using a n y by simp
qed

subsection \<open>Rendering without a render function\<close>

text \<open>
  C6. Without a \<open>renderHTML\<close> prop, \<open>renderHTML(text)\<close> writes one diagnostic to the
  console, returns a promise that is resolved already, and leaves the rendered output and
  all the rest of the instance as they were; this holds for every text.
\<close>

theorem renderHTML_missing:
  "p_renderHTML (props ed) = None \<Longrightarrow>
     snd (renderHTML markdownText ed) = Resolved \<and>
     state_html (fst (renderHTML markdownText ed)) = state_html ed \<and>
     trace (fst (renderHTML markdownText ed)) =
       trace ed @ [ConsoleError ''renderHTML props is required!''] \<and>
     fst (renderHTML markdownText ed) = ed\<lparr>trace := trace (fst (renderHTML markdownText ed))\<rparr>"
  by (simp add: renderHTML_def note_effect_def)

theorem renderHTML_missing_witness:
  "p_renderHTML (props editor0) = None \<and>
   snd (renderHTML [0x23] editor0) = Resolved \<and>
   state_html (fst (renderHTML [0x23] editor0)) = HtmlString [] \<and>
   trace (fst (renderHTML [0x23] editor0)) = [ConsoleError ''renderHTML props is required!'']"
proof -
  have a: "p_renderHTML (props editor0) = None"
    by (simp add: editor0_def constructor_def props0_def)
  have b: "state_html editor0 = HtmlString []" "trace editor0 = []"
    by (simp_all add: editor0_def constructor_def)
  show ?thesis using a b renderHTML_missing [OF a, of "[0x23]"] by simp
qed

subsection \<open>What each operation leaves alone\<close>

lemma note_effect_fields [simp]:
  "state_text (note_effect x ed) = state_text ed"
  "keyboardListeners (note_effect x ed) = keyboardListeners ed"
  "isSyncingScroll (note_effect x ed) = isSyncingScroll ed"
  "pending (note_effect x ed) = pending ed"
  "frames (note_effect x ed) = frames ed"
  by (simp_all add: note_effect_def frames_def)

lemma enqueue_fields [simp]:
  "state_text (enqueue t ed) = state_text ed"
  "keyboardListeners (enqueue t ed) = keyboardListeners ed"
  "isSyncingScroll (enqueue t ed) = isSyncingScroll ed"
  "pending (enqueue t ed) = pending ed @ [t]"
  by (simp_all add: enqueue_def)

lemma frames_enqueue [simp]:
  "frames (enqueue (SetSelectionLater s e) ed) = frames ed"
  "frames (enqueue (HostRender h k) ed) = frames ed"
  "frames (enqueue (NotifyAfterRender ev) ed) = frames ed"
  "frames (enqueue (PlaceholderSettles p w) ed) = frames ed"
  "frames (enqueue (AnimationFrame type) ed) = frames ed @ [AnimationFrame type]"
  by (simp_all add: enqueue_def frames_def)

lemma setHtml_fields [simp]:
  "state_text (fst (setHtml h ed)) = state_text ed"
  "keyboardListeners (fst (setHtml h ed)) = keyboardListeners ed"
  "isSyncingScroll (fst (setHtml h ed)) = isSyncingScroll ed"
  "frames (fst (setHtml h ed)) = frames ed"
  by (simp_all add: setHtml_def frames_def note_effect_def)

lemma renderHTML_fields [simp]:
  "state_text (fst (renderHTML t ed)) = state_text ed"
  "keyboardListeners (fst (renderHTML t ed)) = keyboardListeners ed"
  "isSyncingScroll (fst (renderHTML t ed)) = isSyncingScroll ed"
  "frames (fst (renderHTML t ed)) = frames ed"
  by (simp_all add: renderHTML_def split: option.split render_result.split)

lemma on_rendered_fields [simp]:
  "state_text (on_rendered r k ed) = state_text ed"
  "keyboardListeners (on_rendered r k ed) = keyboardListeners ed"
  "isSyncingScroll (on_rendered r k ed) = isSyncingScroll ed"
  "frames (on_rendered r k ed) = frames ed"
  by (simp_all add: on_rendered_def split: rendering.split option.split)

lemma frames_update [simp]:
  "frames (ed\<lparr>state_text := t\<rparr>) = frames ed"
  "frames (ed\<lparr>hasContentChanged := b\<rparr>) = frames ed"
  "frames (ed\<lparr>props := p\<rparr>) = frames ed"
  "frames (ed\<lparr>nodeMdText := a\<rparr>) = frames ed"
  "frames (ed\<lparr>nodeMdPreview := v\<rparr>) = frames ed"
  "frames (ed\<lparr>nodeMdPreviewWrapper := w\<rparr>) = frames ed"
  "frames (ed\<lparr>nodeEditor := m\<rparr>) = frames ed"
  "frames (ed\<lparr>shouldSyncScroll := q\<rparr>) = frames ed"
  "frames (ed\<lparr>state_fullScreen := b\<rparr>) = frames ed"
  "frames (ed\<lparr>keyboardListeners := l\<rparr>) = frames ed"
  "frames (ed\<lparr>scrollScale := x\<rparr>) = frames ed"
  "frames (ed\<lparr>isSyncingScroll := b\<rparr>) = frames ed"
  by (simp_all add: frames_def)

lemma setText_fields [simp]:
  "keyboardListeners (setText v event sel ed) = keyboardListeners ed"
  "isSyncingScroll (setText v event sel ed) = isSyncingScroll ed"
  "frames (setText v event sel ed) = frames ed"
  by (simp_all add: setText_def Let_def split_beta split: option.split)

lemma setText_text:
  "state_text (setText v event sel ed) = (if state_text ed = v then v else replace_sentinel v)"
  by (simp add: setText_def Let_def split_beta split: option.split)

lemma sentinel_replaced: "sentinel \<notin> set (replace_sentinel v)"
  by (auto simp: replace_sentinel_def sentinel_def newline_def)

lemma setText_same: "state_text ed = v \<Longrightarrow> setText v event sel ed = ed"
  by (simp add: setText_def Let_def)

lemma replace_sentinel_plain: "sentinel \<notin> set v \<Longrightarrow> replace_sentinel v = v"
  by (induction v) (auto simp: replace_sentinel_def)

lemma componentDidMount_fields [simp]:
  "state_text (componentDidMount ed) = state_text ed"
  "keyboardListeners (componentDidMount ed) = keyboardListeners ed"
  "isSyncingScroll (componentDidMount ed) = isSyncingScroll ed"
  "frames (componentDidMount ed) = frames ed"
  by (simp_all add: componentDidMount_def split_beta)

lemma componentDidUpdate_fields [simp]:
  "keyboardListeners (componentDidUpdate ed) = keyboardListeners ed"
  "isSyncingScroll (componentDidUpdate ed) = isSyncingScroll ed"
  "frames (componentDidUpdate ed) = frames ed"
  by (simp_all add: componentDidUpdate_def Let_def split_beta split: option.split)


lemma insertText_fields [simp]:
  "keyboardListeners (insertText v r sel ed) = keyboardListeners ed"
  "isSyncingScroll (insertText v r sel ed) = isSyncingScroll ed"
  "frames (insertText v r sel ed) = frames ed"
  by (simp_all add: insertText_def Let_def)

lemma insertPlaceholder_fields [simp]:
  "keyboardListeners (insertPlaceholder p w ed) = keyboardListeners ed"
  "isSyncingScroll (insertPlaceholder p w ed) = isSyncingScroll ed"
  "frames (insertPlaceholder p w ed) = frames ed"
  by (simp_all add: insertPlaceholder_def)

lemma placeholder_resolved_fields [simp]:
  "keyboardListeners (placeholder_resolved p s ed) = keyboardListeners ed"
  "isSyncingScroll (placeholder_resolved p s ed) = isSyncingScroll ed"
  "frames (placeholder_resolved p s ed) = frames ed"
  by (simp_all add: placeholder_resolved_def)

lemma setSelection_fields [simp]:
  "state_text (setSelection to ed) = state_text ed"
  "keyboardListeners (setSelection to ed) = keyboardListeners ed"
  "isSyncingScroll (setSelection to ed) = isSyncingScroll ed"
  "frames (setSelection to ed) = frames ed"
  by (simp_all add: setSelection_def split: option.split)

lemma fullScreen_fields [simp]:
  "state_text (fullScreen b ed) = state_text ed"
  "keyboardListeners (fullScreen b ed) = keyboardListeners ed"
  "isSyncingScroll (fullScreen b ed) = isSyncingScroll ed"
  "frames (fullScreen b ed) = frames ed"
  by (simp_all add: fullScreen_def)

lemma onKeyboard1_fields [simp]:
  "state_text (onKeyboard1 d ed) = state_text ed"
  "isSyncingScroll (onKeyboard1 d ed) = isSyncingScroll ed"
  "frames (onKeyboard1 d ed) = frames ed"
  by (simp_all add: onKeyboard1_def)

lemma offKeyboard1_fields [simp]:
  "state_text (offKeyboard1 d ed) = state_text ed"
  "isSyncingScroll (offKeyboard1 d ed) = isSyncingScroll ed"
  "frames (offKeyboard1 d ed) = frames ed"
  by (simp_all add: offKeyboard1_def split: option.split)

lemma fold_onKeyboard1_fields [simp]:
  "state_text (fold onKeyboard1 xs ed) = state_text ed"
  "isSyncingScroll (fold onKeyboard1 xs ed) = isSyncingScroll ed"
  "frames (fold onKeyboard1 xs ed) = frames ed"
  by (induction xs arbitrary: ed; simp)+

lemma fold_offKeyboard1_fields [simp]:
  "state_text (fold offKeyboard1 xs ed) = state_text ed"
  "isSyncingScroll (fold offKeyboard1 xs ed) = isSyncingScroll ed"
  "frames (fold offKeyboard1 xs ed) = frames ed"
  by (induction xs arbitrary: ed; simp)+

lemma onKeyboard_fields [simp]:
  "state_text (onKeyboard d ed) = state_text ed"
  "isSyncingScroll (onKeyboard d ed) = isSyncingScroll ed"
  "frames (onKeyboard d ed) = frames ed"
  by (simp_all add: onKeyboard_def split: listeners.split)

lemma offKeyboard_fields [simp]:
  "state_text (offKeyboard d ed) = state_text ed"
  "isSyncingScroll (offKeyboard d ed) = isSyncingScroll ed"
  "frames (offKeyboard d ed) = frames ed"
  by (simp_all add: offKeyboard_def split: listeners.split)

lemma handleSyncScroll_fields [simp]:
  "state_text (handleSyncScroll type e ed) = state_text ed"
  "keyboardListeners (handleSyncScroll type e ed) = keyboardListeners ed"
  by (simp_all add: handleSyncScroll_def Let_def split: option.split bool.split)

lemma animation_frame_fields:
  "animation_frame type ed = Inr ed' \<Longrightarrow>
     state_text ed' = state_text ed \<and> keyboardListeners ed' = keyboardListeners ed \<and>
     \<not> isSyncingScroll ed' \<and> frames ed' = frames ed"
  by (auto simp: animation_frame_def Let_def split: option.splits bool.splits if_splits)

lemma dequeue_fields [simp]:
  "state_text (dequeue i ed) = state_text ed"
  "keyboardListeners (dequeue i ed) = keyboardListeners ed"
  "isSyncingScroll (dequeue i ed) = isSyncingScroll ed"
  by (simp_all add: dequeue_def)

subsection \<open>The stored text is normalised\<close>

lemma constructor_fields [simp]:
  "sentinel \<notin> set (state_text (constructor p c))"
  "keyboardListeners (constructor p c) = []"
  "\<not> isSyncingScroll (constructor p c)"
  "frames (constructor p c) = []"
  by (simp_all add: constructor_def sentinel_replaced frames_def)

lemma run_task_fields:
  "run_task t ed = Inr ed' \<Longrightarrow>
     keyboardListeners ed' = keyboardListeners ed \<and>
     (sentinel \<notin> set (state_text ed) \<longrightarrow> sentinel \<notin> set (state_text ed'))"
  by (cases t)
     (auto simp: run_task_def placeholder_resolved_def setText_text sentinel_replaced
           dest: animation_frame_fields split: option.splits if_splits)

lemma run_pending_fields:
  "run_pending i ed = Inr ed' \<Longrightarrow>
     keyboardListeners ed' = keyboardListeners ed \<and>
     (sentinel \<notin> set (state_text ed) \<longrightarrow> sentinel \<notin> set (state_text ed'))"
  using run_task_fields [of "pending ed ! i" "dequeue i ed" ed']
  by (auto simp: run_pending_def split: if_splits)





subsection \<open>Keyboard listeners\<close>

lemma onKeyboard1_distinct:
  "distinct (keyboardListeners ed) \<Longrightarrow> distinct (keyboardListeners (onKeyboard1 d ed))"
  by (simp add: onKeyboard1_def)

lemma indexOf_remove1:
  "(case indexOf x xs of Some i \<Rightarrow> take i xs @ drop (Suc i) xs | None \<Rightarrow> xs) = remove1 x xs"
  by (induction xs) (auto split: option.splits)

lemma offKeyboard1_remove1:
  "keyboardListeners (offKeyboard1 d ed) = remove1 d (keyboardListeners ed)"
  using indexOf_remove1 [where x = d and xs = "keyboardListeners ed"]
  by (simp add: offKeyboard1_def split: option.splits)

lemma offKeyboard1_distinct:
  "distinct (keyboardListeners ed) \<Longrightarrow> distinct (keyboardListeners (offKeyboard1 d ed))"
  by (simp add: offKeyboard1_remove1)

lemma fold_onKeyboard1_distinct:
  "distinct (keyboardListeners ed) \<Longrightarrow> distinct (keyboardListeners (fold onKeyboard1 xs ed))"
  by (induction xs arbitrary: ed) (simp_all add: onKeyboard1_distinct)

lemma fold_offKeyboard1_distinct:
  "distinct (keyboardListeners ed) \<Longrightarrow> distinct (keyboardListeners (fold offKeyboard1 xs ed))"
  by (induction xs arbitrary: ed) (simp_all add: offKeyboard1_distinct)

lemma onKeyboard_distinct:
  "distinct (keyboardListeners ed) \<Longrightarrow> distinct (keyboardListeners (onKeyboard d ed))"
  by (cases d) (simp_all add: onKeyboard_def onKeyboard1_distinct fold_onKeyboard1_distinct)

lemma offKeyboard_distinct:
  "distinct (keyboardListeners ed) \<Longrightarrow> distinct (keyboardListeners (offKeyboard d ed))"
  by (cases d) (simp_all add: offKeyboard_def offKeyboard1_distinct fold_offKeyboard1_distinct)

lemma step_listeners:
  "distinct (keyboardListeners ed) \<Longrightarrow> distinct (keyboardListeners (snd (step a ed)))"
proof (cases a)
  case (Run i)
  assume "distinct (keyboardListeners ed)"
  then show ?thesis using Run run_pending_fields [of i ed]
    by (auto simp: step_def split: sum.splits)
qed (auto simp: step_def onKeyboard_distinct offKeyboard_distinct)

lemma count_list_distinct:
  "distinct xs \<Longrightarrow> x \<in> set xs \<Longrightarrow> count_list xs x = 1"
  by (induction xs) (auto simp: count_list_0_iff)

lemma reachable_listeners: "reachable ed \<Longrightarrow> distinct (keyboardListeners ed)"
  by (induction rule: reachable.induct) (simp_all add: step_listeners)

text \<open>
  C10. The list of keyboard listeners of an instance never holds a listener twice, and
  \<open>onKeyboard\<close> and \<open>offKeyboard\<close> keep it so. \<open>onKeyboard\<close> adds a listener at the end
  only when the list does not hold it, so registering it again changes nothing and it is
  held once; one \<open>offKeyboard\<close> then removes it.
\<close>

theorem keyboard_listeners_distinct:
  "reachable ed \<Longrightarrow>
     distinct (keyboardListeners ed) \<and>
     distinct (keyboardListeners (onKeyboard d ed)) \<and>
     distinct (keyboardListeners (offKeyboard d ed)) \<and>
     (x \<in> set (keyboardListeners ed) \<longrightarrow> onKeyboard (One x) ed = ed) \<and>
     (x \<notin> set (keyboardListeners ed) \<longrightarrow>
        keyboardListeners (onKeyboard (One x) ed) = keyboardListeners ed @ [x]) \<and>
     onKeyboard (One x) (onKeyboard (One x) ed) = onKeyboard (One x) ed \<and>
     count_list (keyboardListeners (onKeyboard (One x) (onKeyboard (One x) ed))) x = 1 \<and>
     x \<notin> set (keyboardListeners (offKeyboard (One x) (onKeyboard (One x) (onKeyboard (One x) ed))))"
proof -
  assume r: "reachable ed"
  then have d: "distinct (keyboardListeners ed)" by (rule reachable_listeners)
  have a: "x \<in> set (keyboardListeners ed) \<longrightarrow> onKeyboard (One x) ed = ed"
    by (simp add: onKeyboard_def onKeyboard1_def)
  have b: "x \<notin> set (keyboardListeners ed) \<longrightarrow>
        keyboardListeners (onKeyboard (One x) ed) = keyboardListeners ed @ [x]"
    by (simp add: onKeyboard_def onKeyboard1_def)
  have i: "onKeyboard (One x) (onKeyboard (One x) ed) = onKeyboard (One x) ed"
    by (simp add: onKeyboard_def onKeyboard1_def)
  have m: "x \<in> set (keyboardListeners (onKeyboard (One x) ed))"
    by (simp add: onKeyboard_def onKeyboard1_def)
  have d1: "distinct (keyboardListeners (onKeyboard (One x) ed))"
    using d by (rule onKeyboard_distinct)
  have c: "count_list (keyboardListeners (onKeyboard (One x) ed)) x = 1"
    using d1 m by (rule count_list_distinct)
  have o: "x \<notin> set (keyboardListeners (offKeyboard (One x) (onKeyboard (One x) ed)))"
    using d1 by (simp add: offKeyboard_def offKeyboard1_remove1)
  show ?thesis
    using d a b c o onKeyboard_distinct [OF d] offKeyboard_distinct [OF d] by (simp add: i)
qed

theorem keyboard_listeners_distinct_witness:
  "reachable (snd (step (OnKeyboard (Many [7, 8, 7])) editor0)) \<and>
   keyboardListeners (snd (step (OnKeyboard (Many [7, 8, 7])) editor0)) = [7, 8] \<and>
   distinct (keyboardListeners (snd (step (OnKeyboard (Many [7, 8, 7])) editor0))) \<and>
   onKeyboard (One 8) (snd (step (OnKeyboard (Many [7, 8, 7])) editor0)) =
     snd (step (OnKeyboard (Many [7, 8, 7])) editor0) \<and>
   8 \<notin> set (keyboardListeners
     (offKeyboard (One 8) (onKeyboard (One 8) (onKeyboard (One 8)
        (snd (step (OnKeyboard (Many [7, 8, 7])) editor0))))))"
proof -
  have r: "reachable (snd (step (OnKeyboard (Many [7, 8, 7])) editor0))"
    unfolding editor0_def by (intro r_step r_init)
  have v: "keyboardListeners (snd (step (OnKeyboard (Many [7, 8, 7])) editor0)) = [7, 8]"
    by (simp add: step_def onKeyboard_def onKeyboard1_def editor0_def constructor_def)
  have m: "8 \<in> set (keyboardListeners (snd (step (OnKeyboard (Many [7, 8, 7])) editor0)))"
    by (simp add: v)
  note t = keyboard_listeners_distinct [OF r, of "One 8" 8]
  show ?thesis using r v m t by blast
qed

subsection \<open>Scroll writes are coalesced\<close>

lemma filter_without_nth:
  "i < length xs \<Longrightarrow>
   length (filter P (take i xs @ drop (Suc i) xs)) =
     length (filter P xs) - (if P (xs ! i) then 1 else 0)"
proof -
  assume i: "i < length xs"
  have "filter P xs = filter P (take i xs @ xs ! i # drop (Suc i) xs)"
    using id_take_nth_drop [OF i] by simp
  then show ?thesis by simp
qed

lemma frames_dequeue:
  "i < length (pending ed) \<Longrightarrow>
   length (frames (dequeue i ed)) =
     length (frames ed) - (case pending ed ! i of AnimationFrame _ \<Rightarrow> 1 | _ \<Rightarrow> 0)"
  using filter_without_nth
    [of i "pending ed" "\<lambda>t. case t of AnimationFrame _ \<Rightarrow> True | _ \<Rightarrow> False"]
  by (simp add: frames_def dequeue_def split: task.splits)

lemma handleSyncScroll_sync:
  "isSyncingScroll ed \<Longrightarrow>
     isSyncingScroll (handleSyncScroll type e ed) \<and>
     pending (handleSyncScroll type e ed) = pending ed"
  by (simp add: handleSyncScroll_def Let_def split: option.split bool.split)

lemma handleSyncScroll_trace:
  "scroll_writes (handleSyncScroll type e ed) = scroll_writes ed"
  by (simp add: handleSyncScroll_def Let_def scroll_writes_def note_effect_def enqueue_def
           split: option.split bool.split)

lemma handleSyncScroll_coalesced:
  "coalesced ed \<Longrightarrow> coalesced (handleSyncScroll type e ed)"
  by (auto simp: coalesced_def handleSyncScroll_def Let_def split: option.split bool.split)

lemma run_task_frames:
  "run_task t ed = Inr ed' \<Longrightarrow>
     frames ed' = frames ed \<and>
     (case t of AnimationFrame _ \<Rightarrow> \<not> isSyncingScroll ed'
      | _ \<Rightarrow> isSyncingScroll ed' = isSyncingScroll ed)"
  by (cases t)
     (auto simp: run_task_def dest: animation_frame_fields split: option.splits if_splits)

lemma run_pending_coalesced:
  assumes "coalesced ed" and "run_pending i ed = Inr ed'"
  shows "coalesced ed'"
proof (cases "i < length (pending ed)")
  case False
  then show ?thesis using assms by (simp add: run_pending_def)
next
  case True
  then have run: "run_task (pending ed ! i) (dequeue i ed) = Inr ed'"
    using assms(2) by (simp add: run_pending_def)
  note f = run_task_frames [OF run] and d = frames_dequeue [OF True]
  show ?thesis
  proof (cases "pending ed ! i")
    case (AnimationFrame type)
    then have "frames ed' = []" using f d assms(1) by (simp add: coalesced_def)
    then show ?thesis by (simp add: coalesced_def)
  qed (use f d assms(1) in \<open>auto simp: coalesced_def\<close>)
qed

lemma dequeue_coalesced: "coalesced ed \<Longrightarrow> coalesced (dequeue i ed)"
proof (cases "i < length (pending ed)")
  case True
  assume "coalesced ed"
  then show ?thesis using frames_dequeue [OF True]
    by (auto simp: coalesced_def split: task.splits)
next
  case False
  assume "coalesced ed"
  then show ?thesis using False by (simp add: dequeue_def)
qed

lemma step_coalesced: "coalesced ed \<Longrightarrow> coalesced (snd (step a ed))"
proof (cases a)
  case (Run i)
  assume "coalesced ed"
  then show ?thesis using Run run_pending_coalesced [of ed i] dequeue_coalesced [of ed i]
    by (auto simp: step_def split: sum.splits)
next
  case (Scroll type e)
  assume "coalesced ed"
  then show ?thesis using Scroll by (simp add: step_def handleSyncScroll_coalesced)
qed (auto simp: step_def coalesced_def)

lemma reachable_coalesced: "reachable ed \<Longrightarrow> coalesced ed"
  by (induction rule: reachable.induct) (simp_all add: step_coalesced, simp add: coalesced_def)

lemma scroll_events_reachable: "reachable ed \<Longrightarrow> reachable (scroll_events evs ed)"
  unfolding scroll_events_def
proof (induction evs arbitrary: ed)
  case Nil
  then show ?case by simp
next
  case (Cons ev evs)
  obtain type e where ev: "ev = (type, e)" by (cases ev)
  have "reachable (snd (step (Scroll type e) ed))" using Cons.prems by (rule r_step)
  then have "reachable (handleSyncScroll type e ed)" by (simp add: step_def)
  then show ?case using Cons.IH ev by simp
qed

lemma scroll_events_sync:
  "isSyncingScroll ed \<Longrightarrow>
     isSyncingScroll (scroll_events evs ed) \<and> pending (scroll_events evs ed) = pending ed"
  unfolding scroll_events_def
proof (induction evs arbitrary: ed)
  case Nil
  then show ?case by simp
next
  case (Cons ev evs)
  obtain type e where ev: "ev = (type, e)" by (cases ev)
  show ?case using Cons.IH [of "handleSyncScroll type e ed"] handleSyncScroll_sync [OF Cons.prems]
    by (simp add: ev)
qed

lemma scroll_events_trace: "scroll_writes (scroll_events evs ed) = scroll_writes ed"
  unfolding scroll_events_def
  by (induction evs arbitrary: ed) (auto simp: handleSyncScroll_trace)

lemma animation_frame_writes:
  "animation_frame type ed = Inr ed' \<Longrightarrow>
     scroll_writes ed' = scroll_writes ed \<or>
     (\<exists>v. scroll_writes ed' = scroll_writes ed @ [ScrollWrite (other type) v])"
  by (cases type)
     (auto simp: animation_frame_def Let_def scroll_writes_def note_effect_def other_def
           split: option.splits bool.splits if_splits)

lemma scroll_writes_note [simp]:
  "scroll_writes (note_effect x ed) =
     scroll_writes ed @ (case x of ScrollWrite p v \<Rightarrow> [x] | _ \<Rightarrow> [])"
  by (simp add: scroll_writes_def note_effect_def split: effect.split)

lemma scroll_writes_update [simp]:
  "scroll_writes (enqueue t ed) = scroll_writes ed"
  "scroll_writes (dequeue i ed) = scroll_writes ed"
  "scroll_writes (ed\<lparr>state_text := s\<rparr>) = scroll_writes ed"
  "scroll_writes (ed\<lparr>state_html := h\<rparr>) = scroll_writes ed"
  "scroll_writes (ed\<lparr>hasContentChanged := b\<rparr>) = scroll_writes ed"
  "scroll_writes (ed\<lparr>props := p\<rparr>) = scroll_writes ed"
  "scroll_writes (ed\<lparr>nodeMdText := a\<rparr>) = scroll_writes ed"
  "scroll_writes (ed\<lparr>nodeMdPreview := w\<rparr>) = scroll_writes ed"
  "scroll_writes (ed\<lparr>nodeMdPreviewWrapper := pw\<rparr>) = scroll_writes ed"
  "scroll_writes (ed\<lparr>nodeEditor := m\<rparr>) = scroll_writes ed"
  "scroll_writes (ed\<lparr>shouldSyncScroll := q\<rparr>) = scroll_writes ed"
  "scroll_writes (ed\<lparr>state_fullScreen := b\<rparr>) = scroll_writes ed"
  "scroll_writes (ed\<lparr>keyboardListeners := l\<rparr>) = scroll_writes ed"
  by (simp_all add: scroll_writes_def enqueue_def dequeue_def)

lemma scroll_writes_render [simp]:
  "scroll_writes (fst (setHtml h ed)) = scroll_writes ed"
  "scroll_writes (fst (renderHTML t ed)) = scroll_writes ed"
  "scroll_writes (on_rendered r k ed) = scroll_writes ed"
  by (simp_all add: setHtml_def renderHTML_def on_rendered_def
        split: option.split render_result.split rendering.split)

lemma scroll_writes_setText [simp]:
  "scroll_writes (setText v event sel ed) = scroll_writes ed"
  by (simp add: setText_def Let_def split_beta split: option.split)

lemma scroll_writes_methods [simp]:
  "scroll_writes (componentDidMount ed) = scroll_writes ed"
  "scroll_writes (componentDidUpdate ed) = scroll_writes ed"
  "scroll_writes (insertText v r sel ed) = scroll_writes ed"
  "scroll_writes (insertPlaceholder p w ed) = scroll_writes ed"
  "scroll_writes (placeholder_resolved p s ed) = scroll_writes ed"
  "scroll_writes (setSelection to ed) = scroll_writes ed"
  "scroll_writes (fullScreen b ed) = scroll_writes ed"
  "scroll_writes (onKeyboard1 x ed) = scroll_writes ed"
  "scroll_writes (offKeyboard1 x ed) = scroll_writes ed"
  by (simp_all add: componentDidMount_def componentDidUpdate_def insertText_def
        insertPlaceholder_def placeholder_resolved_def setSelection_def fullScreen_def
        onKeyboard1_def offKeyboard1_def Let_def split_beta split: option.split)

lemma scroll_writes_keyboard [simp]:
  "scroll_writes (onKeyboard d ed) = scroll_writes ed"
  "scroll_writes (offKeyboard d ed) = scroll_writes ed"
proof -
  have "scroll_writes (fold onKeyboard1 xs ed) = scroll_writes ed" for xs
    by (induction xs arbitrary: ed) simp_all
  then show "scroll_writes (onKeyboard d ed) = scroll_writes ed"
    by (simp add: onKeyboard_def split: listeners.split)
  have "scroll_writes (fold offKeyboard1 xs ed) = scroll_writes ed" for xs
    by (induction xs arbitrary: ed) simp_all
  then show "scroll_writes (offKeyboard d ed) = scroll_writes ed"
    by (simp add: offKeyboard_def split: listeners.split)
qed

lemma run_task_writes:
  "run_task t ed = Inr ed' \<Longrightarrow>
     scroll_writes ed' = scroll_writes ed \<or>
     (\<exists>type v. t = AnimationFrame type \<and>
        scroll_writes ed' = scroll_writes ed @ [ScrollWrite (other type) v])"
proof (cases t)
  case (AnimationFrame type)
  assume "run_task t ed = Inr ed'"
  then have "animation_frame type ed = Inr ed'" using AnimationFrame by (simp add: run_task_def)
  from animation_frame_writes [OF this] show ?thesis using AnimationFrame by blast
qed (auto simp: run_task_def split: option.splits if_splits)

lemma step_writes:
  "scroll_writes (snd (step a ed)) = scroll_writes ed \<or>
   (\<exists>i type v. a = Run i \<and> i < length (pending ed) \<and> pending ed ! i = AnimationFrame type \<and>
      fst (step a ed) = None \<and> \<not> isSyncingScroll (snd (step a ed)) \<and>
      scroll_writes (snd (step a ed)) = scroll_writes ed @ [ScrollWrite (other type) v])"
proof (cases a)
  case (Run i)
  show ?thesis
  proof (cases "run_pending i ed")
    case (Inl err)
    then show ?thesis using Run by (simp add: step_def)
  next
    case (Inr ed')
    then have s: "step a ed = (None, ed')" using Run by (simp add: step_def)
    show ?thesis
    proof (cases "i < length (pending ed)")
      case False
      then show ?thesis using Inr s by (simp add: run_pending_def)
    next
      case True
      then have run: "run_task (pending ed ! i) (dequeue i ed) = Inr ed'"
        using Inr by (simp add: run_pending_def)
      from run_task_writes [OF run] run_task_frames [OF run] show ?thesis
        using True Run s by auto
    qed
  qed
qed (simp_all add: step_def handleSyncScroll_trace)

lemma step_clears:
  assumes "isSyncingScroll ed" and "\<not> isSyncingScroll (snd (step a ed))"
  shows "\<exists>i type. a = Run i \<and> i < length (pending ed) \<and> pending ed ! i = AnimationFrame type \<and>
           fst (step a ed) = None"
proof (cases a)
  case (Run i)
  show ?thesis
  proof (cases "run_pending i ed")
    case (Inl err)
    then show ?thesis using Run assms by (simp add: step_def)
  next
    case (Inr ed')
    then have s: "step a ed = (None, ed')" using Run by (simp add: step_def)
    show ?thesis
    proof (cases "i < length (pending ed)")
      case False
      then show ?thesis using Inr s assms by (simp add: run_pending_def)
    next
      case True
      then have run: "run_task (pending ed ! i) (dequeue i ed) = Inr ed'"
        using Inr by (simp add: run_pending_def)
      from run_task_frames [OF run] show ?thesis
        using True Run s assms by (cases "pending ed ! i") auto
    qed
  qed
next
  case (Scroll type e)
  then show ?thesis using assms handleSyncScroll_sync [of ed type e] by (simp add: step_def)
qed (use assms in \<open>simp_all add: step_def\<close>)

lemma editor_sync_eq:
  "editor_sync = (constructor props0 config_sync)
      \<lparr>nodeMdText := Some textarea0, nodeMdPreview := None,
       nodeMdPreviewWrapper := Some wrapper0, nodeEditor := Some codemirror0\<rparr>"
  by (simp add: editor_sync_def step_def)

lemma editor_scrolled_eq:
  "editor_scrolled = editor_sync
      \<lparr>scrollScale := 2, hasContentChanged := False, isSyncingScroll := True,
       trace := [EmitScroll 1 Md], pending := [AnimationFrame Md]\<rparr>"
  by (simp add: editor_scrolled_def step_def handleSyncScroll_def editor_sync_eq constructor_def
        props0_def config_sync_def note_effect_def enqueue_def Let_def textarea0_def wrapper0_def)

text \<open>
  C8. From any state an instance can reach, and for any burst of scroll events: at most
  one animation-frame callback waits afterwards, and the events themselves write no
  scroll offset. While the syncing flag is set a burst adds no callback and leaves the
  flag set. The flag is cleared only by a waiting animation-frame callback that runs
  without throwing; and a step of the instance writes a scroll offset only if it is such
  a callback, which then writes once, to the other pane, and clears the flag.
\<close>

theorem scroll_writes_coalesced:
  "reachable ed \<Longrightarrow>
     length (frames (scroll_events evs ed)) \<le> 1 \<and>
     scroll_writes (scroll_events evs ed) = scroll_writes ed \<and>
     (isSyncingScroll ed \<longrightarrow>
        isSyncingScroll (scroll_events evs ed) \<and> pending (scroll_events evs ed) = pending ed) \<and>
     (isSyncingScroll ed \<and> \<not> isSyncingScroll (snd (step a ed)) \<longrightarrow>
        (\<exists>i type. a = Run i \<and> i < length (pending ed) \<and>
           pending ed ! i = AnimationFrame type \<and> fst (step a ed) = None)) \<and>
     (scroll_writes (snd (step a ed)) = scroll_writes ed \<or>
      (\<exists>i type v. a = Run i \<and> i < length (pending ed) \<and>
         pending ed ! i = AnimationFrame type \<and> fst (step a ed) = None \<and>
         \<not> isSyncingScroll (snd (step a ed)) \<and>
         scroll_writes (snd (step a ed)) = scroll_writes ed @ [ScrollWrite (other type) v]))"
proof -
  assume r: "reachable ed"
  have "coalesced (scroll_events evs ed)"
    using r by (intro reachable_coalesced scroll_events_reachable)
  then have a: "length (frames (scroll_events evs ed)) \<le> 1" by (simp add: coalesced_def)
  show ?thesis
    using a scroll_events_trace [of evs ed] scroll_events_sync [of ed evs]
      step_clears [of ed a] step_writes [of a ed]
    by blast
qed

theorem scroll_writes_coalesced_witness:
  "reachable editor_scrolled \<and> isSyncingScroll editor_scrolled \<and>
   \<not> isSyncingScroll (snd (step (Run 0) editor_scrolled)) \<and>
   frames (scroll_events [(Md, 2), (Html, 3), (Md, 4)] editor_scrolled) = [AnimationFrame Md] \<and>
   pending (scroll_events [(Md, 2), (Html, 3), (Md, 4)] editor_scrolled) = pending editor_scrolled \<and>
   scroll_writes (scroll_events [(Md, 2), (Html, 3), (Md, 4)] editor_scrolled) = [] \<and>
   scroll_writes (snd (step (Run 0) editor_scrolled)) = [ScrollWrite Html 25]"
proof -
  have r: "reachable editor_scrolled"
    unfolding editor_scrolled_def editor_sync_def by (intro r_step r_init)
  have s: "isSyncingScroll editor_scrolled" "pending editor_scrolled = [AnimationFrame Md]"
    "scroll_writes editor_scrolled = []"
    by (simp_all add: editor_scrolled_eq scroll_writes_def)
  have c: "\<not> isSyncingScroll (snd (step (Run 0) editor_scrolled))"
    "scroll_writes (snd (step (Run 0) editor_scrolled)) = [ScrollWrite Html 25]"
    by (simp_all add: step_def run_pending_def run_task_def dequeue_def animation_frame_def
          editor_scrolled_eq editor_sync_eq constructor_def codemirror0_def wrapper0_def
          scroll_writes_def note_effect_def Let_def)
  note t = scroll_writes_coalesced [OF r, of "[(Md, 2), (Html, 3), (Md, 4)]" "Run 0"]
  show ?thesis using r s c t by (simp add: frames_def)
qed

subsection \<open>Setting the same text again\<close>

lemma setText_plain_idempotent:
  "sentinel \<notin> set v \<Longrightarrow>
     setText v event' sel' (setText v event sel ed) = setText v event sel ed"
  by (rule setText_same) (simp add: setText_text replace_sentinel_plain)

lemma text_changes_note [simp]:
  "text_changes (note_effect x ed) =
     text_changes ed @ (case x of SetStateText t \<Rightarrow> [x] | _ \<Rightarrow> [])"
  by (simp add: text_changes_def note_effect_def split: effect.split)

lemma change_events_note [simp]:
  "change_events (note_effect x ed) =
     change_events ed @ (case x of EmitChange t ev b \<Rightarrow> [x] | _ \<Rightarrow> [])"
  by (simp add: change_events_def note_effect_def split: effect.split)

lemma notifications_update [simp]:
  "text_changes (enqueue t ed) = text_changes ed"
  "change_events (enqueue t ed) = change_events ed"
  "text_changes (ed\<lparr>state_text := s\<rparr>) = text_changes ed"
  "change_events (ed\<lparr>state_text := s\<rparr>) = change_events ed"
  "text_changes (ed\<lparr>state_html := h\<rparr>) = text_changes ed"
  "change_events (ed\<lparr>state_html := h\<rparr>) = change_events ed"
  "text_changes (ed\<lparr>hasContentChanged := b\<rparr>) = text_changes ed"
  "change_events (ed\<lparr>hasContentChanged := b\<rparr>) = change_events ed"
  by (simp_all add: text_changes_def change_events_def enqueue_def)

lemma notifications_render [simp]:
  "text_changes (fst (renderHTML t ed)) = text_changes ed"
  "change_events (fst (renderHTML t ed)) = change_events ed"
  "text_changes (on_rendered r k ed) = text_changes ed"
  "change_events (on_rendered r k ed) = change_events ed"
  by (simp_all add: setHtml_def renderHTML_def on_rendered_def
        split: option.split render_result.split rendering.split)

lemma setText_notifies:
  "state_text ed \<noteq> v \<Longrightarrow>
     text_changes (setText v event sel ed) = text_changes ed @ [SetStateText (replace_sentinel v)] \<and>
     change_events (setText v event sel ed) = change_events ed @ [EmitChange v event (event = None)]"
  by (simp add: setText_def Let_def split_beta split: option.split)

lemma setText_sentinel_again:
  assumes "sentinel \<in> set v" and "state_text ed = replace_sentinel v"
  shows "text_changes (setText v event sel ed) = text_changes ed @ [SetStateText (state_text ed)] \<and>
         change_events (setText v event sel ed) = change_events ed @ [EmitChange v event (event = None)]"
proof -
  have "sentinel \<notin> set (state_text ed)" using assms(2) by (simp add: sentinel_replaced)
  then have "state_text ed \<noteq> v" using assms(1) by auto
  from setText_notifies [OF this] show ?thesis using assms(2) by simp
qed

text \<open>
  C1. \<open>setText\<close> is idempotent for a text without the sentinel, and for a text with the
  sentinel whose normalised form is the stored text it sets the state and emits the
  change event again (the lemmas above). So on an instance with a render function and an
  \<open>onChange\<close> callback, \<open>setText\<close> of \<open>a\<close>, sentinel, \<open>b\<close> stores \<open>a\<close>, newline, \<open>b\<close>, the
  normalised form; the same call again compares the stored text with the argument as
  given, finds them different, and sets the state and emits the change event a second
  time.
\<close>

theorem setText_sentinel_repeats:
  "state_text (setText text_a_sentinel_b None None editor_host) = replace_sentinel text_a_sentinel_b \<and>
   text_changes (setText text_a_sentinel_b None None editor_host) =
     [SetStateText [0x61, 0x0A, 0x62]] \<and>
   change_events (setText text_a_sentinel_b None None editor_host) =
     [EmitChange text_a_sentinel_b None True] \<and>
   text_changes (setText text_a_sentinel_b None None
                  (setText text_a_sentinel_b None None editor_host)) =
     [SetStateText [0x61, 0x0A, 0x62], SetStateText [0x61, 0x0A, 0x62]] \<and>
   change_events (setText text_a_sentinel_b None None
                   (setText text_a_sentinel_b None None editor_host)) =
     [EmitChange text_a_sentinel_b None True, EmitChange text_a_sentinel_b None True]"
  by (simp add: setText_def Let_def editor_host_def constructor_def props_host_def config0_def
        js_or_def replace_sentinel_def text_a_sentinel_b_def sentinel_def newline_def
        renderHTML_def setHtml_def on_rendered_def note_effect_def enqueue_def getHtmlValue_def
        text_changes_def change_events_def)

subsection \<open>Resolving a placeholder\<close>

lemma index_of_bound: "index_of pat s = Some i \<Longrightarrow> i + length pat \<le> length s"
proof (induction s arbitrary: i)
  case Nil
  then show ?case by (simp split: if_splits)
next
  case (Cons c s)
  show ?case
  proof (cases "take (length pat) (c # s) = pat")
    case True
    then have "length (take (length pat) (c # s)) = length pat" by simp
    then have "length pat \<le> length (c # s)"
      unfolding length_take by linarith
    then show ?thesis using Cons.prems True by simp
  next
    case False
    then show ?thesis using Cons by auto
  qed
qed

lemma index_of_Some:
  "index_of pat s = Some i \<Longrightarrow>
     take (length pat) (drop i s) = pat \<and> (\<forall>j<i. take (length pat) (drop j s) \<noteq> pat)"
proof (induction s arbitrary: i)
  case Nil
  then show ?case by (simp split: if_splits)
next
  case (Cons c s)
  show ?case
  proof (cases "take (length pat) (c # s) = pat")
    case True
    then show ?thesis using Cons.prems by simp
  next
    case False
    then obtain k where k: "index_of pat s = Some k" "i = Suc k"
      using Cons.prems by auto
    have "\<forall>j<Suc k. take (length pat) (drop j (c # s)) \<noteq> pat"
    proof (intro allI impI)
      fix j assume "j < Suc k"
      then show "take (length pat) (drop j (c # s)) \<noteq> pat"
        using False Cons.IH [OF k(1)] by (cases j) auto
    qed
    then show ?thesis using Cons.IH [OF k(1)] k(2) by simp
  qed
qed

lemma index_of_None:
  "index_of pat s = None \<Longrightarrow> \<forall>j. take (length pat) (drop j s) \<noteq> pat"
proof (induction s)
  case Nil
  then show ?case by (simp split: if_splits)
next
  case (Cons c s)
  then have a: "take (length pat) (c # s) \<noteq> pat" and b: "index_of pat s = None"
    by (auto split: if_splits)
  show ?case
  proof
    fix j
    show "take (length pat) (drop j (c # s)) \<noteq> pat"
      using a Cons.IH [OF b] by (cases j) auto
  qed
qed

lemma get_substitution_plain:
  "dollar \<notin> set rep \<Longrightarrow> get_substitution matched before after rep = rep"
  by (induction matched before after rep rule: get_substitution.induct) auto

lemma js_replace_absent: "index_of pat s = None \<Longrightarrow> js_replace s pat rep = s"
  by (simp add: js_replace_def)

lemma js_replace_plain:
  "index_of pat s = Some i \<Longrightarrow> dollar \<notin> set rep \<Longrightarrow>
     js_replace s pat rep = take i s @ rep @ drop (i + length pat) s"
  by (simp add: js_replace_def get_substitution_plain)

lemma placeholder_absent:
  "index_of placeholder (getMdValue ed) = None \<Longrightarrow> placeholder_resolved placeholder str ed = ed"
  by (simp add: placeholder_resolved_def js_replace_absent getMdValue_def setText_same)

lemma placeholder_plain:
  "index_of placeholder (getMdValue ed) = Some i \<Longrightarrow> dollar \<notin> set str \<Longrightarrow>
     placeholder_resolved placeholder str ed =
       setText (take i (getMdValue ed) @ str @ drop (i + length placeholder) (getMdValue ed))
         None None ed"
  by (simp add: placeholder_resolved_def js_replace_plain)

text \<open>
  C5. When the token no longer occurs in the text, the callback of the placeholder's
  promise changes nothing and does not throw, and a resolved string without a dollar sign
  takes the place of the first occurrence of the token (the lemmas above). A resolved
  string with a dollar pattern does not: the token \<open>X\<close> is inserted into the empty text,
  its promise resolves to \<open>$$\<close>, and the text becomes \<open>$\<close>; when it resolves to \<open>$&\<close> the
  text is still \<open>X\<close>, the token.
\<close>

theorem placeholder_dollar_expanded:
  "getMdValue (insertPlaceholder token_X (Some [0x24, 0x24]) editor0) = token_X \<and>
   pending (insertPlaceholder token_X (Some [0x24, 0x24]) editor0) ! 2 =
     PlaceholderSettles token_X (Some [0x24, 0x24]) \<and>
   fst (step (Run 2) (insertPlaceholder token_X (Some [0x24, 0x24]) editor0)) = None \<and>
   getMdValue (snd (step (Run 2) (insertPlaceholder token_X (Some [0x24, 0x24]) editor0))) = [0x24] \<and>
   getMdValue (snd (step (Run 2) (insertPlaceholder token_X (Some [0x24, 0x26]) editor0))) = token_X"
  by (simp add: step_def run_pending_def run_task_def dequeue_def placeholder_resolved_def
        insertPlaceholder_def insertText_def getSelection_def initialSelection_def js_slice_def
        setText_def Let_def editor0_def constructor_def props0_def config0_def js_or_def
        replace_sentinel_def sentinel_def newline_def renderHTML_def on_rendered_def
        note_effect_def enqueue_def getMdValue_def token_X_def js_replace_def
        dollar_def ampersand_def backtick_def apostrophe_def)

subsection \<open>An instance without its text area\<close>

lemma unsynced_note [simp]: "unsynced (note_effect x ed) = unsynced ed"
  by (simp add: unsynced_def note_effect_def)

lemma unsynced_enqueue [simp]: "unsynced (enqueue t ed) = unsynced ed"
  by (simp add: unsynced_def enqueue_def)

lemma unsynced_dequeue [simp]: "unsynced (dequeue i ed) = unsynced ed"
  by (simp add: unsynced_def dequeue_def)

lemma unsynced_update [simp]:
  "unsynced (ed\<lparr>state_text := s\<rparr>) = unsynced ed"
  "unsynced (ed\<lparr>state_html := h\<rparr>) = unsynced ed"
  "unsynced (ed\<lparr>props := p\<rparr>) = unsynced ed"
  "unsynced (ed\<lparr>state_fullScreen := b\<rparr>) = unsynced ed"
  "unsynced (ed\<lparr>keyboardListeners := l\<rparr>) = unsynced ed"
  "unsynced (ed\<lparr>shouldSyncScroll := q\<rparr>) = unsynced ed"
  "unsynced (ed\<lparr>isSyncingScroll := b\<rparr>) = unsynced ed"
  "unsynced (ed\<lparr>nodeMdPreview := v\<rparr>) = unsynced ed"
  "unsynced (ed\<lparr>nodeMdPreviewWrapper := w\<rparr>) = unsynced ed"
  "unsynced (ed\<lparr>nodeEditor := m\<rparr>) = unsynced ed"
  by (simp_all add: unsynced_def)

lemma unsynced_render [simp]:
  "unsynced (fst (setHtml h ed)) = unsynced ed"
  "unsynced (fst (renderHTML t ed)) = unsynced ed"
  "unsynced (on_rendered r k ed) = unsynced ed"
  by (simp_all add: setHtml_def renderHTML_def on_rendered_def
        split: option.split render_result.split rendering.split)

lemma unsynced_dirty: "unsynced ed \<Longrightarrow> unsynced (ed\<lparr>hasContentChanged := True\<rparr>)"
  by (simp add: unsynced_def)

lemma unsynced_setText: "unsynced ed \<Longrightarrow> unsynced (setText v event sel ed)"
  by (simp add: setText_def Let_def split_beta unsynced_dirty split: option.split)

lemma unsynced_methods:
  assumes "unsynced ed"
  shows "unsynced (componentDidMount ed)"
    and "unsynced (componentDidUpdate (ed\<lparr>props := p\<rparr>))"
    and "unsynced (insertText v r sel ed)"
    and "unsynced (insertPlaceholder tok w ed)"
    and "unsynced (placeholder_resolved tok str ed)"
    and "unsynced (setSelection to ed)"
    and "unsynced (fullScreen b ed)"
    and "unsynced (onKeyboard1 x ed)"
    and "unsynced (offKeyboard1 x ed)"
    and "unsynced (handleSyncScroll type e ed)"
  using assms
  by (simp_all add: componentDidMount_def componentDidUpdate_def insertText_def
        insertPlaceholder_def placeholder_resolved_def fullScreen_def
        onKeyboard1_def offKeyboard1_def Let_def split_beta unsynced_setText
        split: option.split)
     (simp_all add: unsynced_def setSelection_def handleSyncScroll_def Let_def
        note_effect_def enqueue_def)

lemma unsynced_fold_on: "unsynced ed \<Longrightarrow> unsynced (fold onKeyboard1 xs ed)"
  by (induction xs arbitrary: ed) (simp_all add: unsynced_methods)

lemma unsynced_fold_off: "unsynced ed \<Longrightarrow> unsynced (fold offKeyboard1 xs ed)"
  by (induction xs arbitrary: ed) (simp_all add: unsynced_methods)

lemma unsynced_keyboard:
  assumes "unsynced ed"
  shows "unsynced (onKeyboard d ed)" and "unsynced (offKeyboard d ed)"
  using assms
  by (cases d; simp add: onKeyboard_def offKeyboard_def unsynced_methods
        unsynced_fold_on unsynced_fold_off)+

lemma unsynced_frame: "unsynced ed \<Longrightarrow> animation_frame type ed = Inr ed' \<Longrightarrow> unsynced ed'"
  by (auto simp: animation_frame_def Let_def unsynced_def note_effect_def
        split: option.splits bool.splits if_splits)

lemma unsynced_task: "unsynced ed \<Longrightarrow> run_task t ed = Inr ed' \<Longrightarrow> unsynced ed'"
  by (cases t)
     (auto simp: run_task_def unsynced_methods dest: unsynced_frame split: option.splits if_splits)

lemma unsynced_step:
  "unsynced ed \<Longrightarrow> \<not> attaches_textarea a \<Longrightarrow> unsynced (snd (step a ed))"
proof (cases a)
  case (Run i)
  assume u: "unsynced ed"
  show ?thesis
  proof (cases "run_pending i ed")
    case (Inl err)
    then show ?thesis using Run u by (simp add: step_def)
  next
    case (Inr ed')
    have "unsynced ed'"
    proof (cases "i < length (pending ed)")
      case True
      then have "run_task (pending ed ! i) (dequeue i ed) = Inr ed'"
        using Inr by (simp add: run_pending_def)
      then show ?thesis using u unsynced_task [of "dequeue i ed"] by simp
    next
      case False
      then show ?thesis using Inr u by (simp add: run_pending_def)
    qed
    then show ?thesis using Run Inr by (simp add: step_def)
  qed
next
  case (Dom t v w m)
  assume "unsynced ed" "\<not> attaches_textarea a"
  then show ?thesis using Dom
    by (cases t) (simp_all add: step_def attaches_textarea_def unsynced_def)
qed (simp_all add: step_def unsynced_methods unsynced_keyboard unsynced_setText)

lemma rendered_unsynced: "rendered ed \<Longrightarrow> unsynced ed"
proof (induction rule: rendered.induct)
  case (rendered_init p c)
  show ?case by (simp add: unsynced_def constructor_def)
next
  case (rendered_step ed a)
  then show ?case by (simp add: unsynced_step)
qed

lemma rendered_reachable: "rendered ed \<Longrightarrow> reachable ed"
  by (induction rule: rendered.induct) (auto intro: reachable.intros)

lemma rendered_selection:
  "rendered ed \<Longrightarrow>
     setSelection (s, e) ed = ed \<and> getSelection (setSelection (s, e) ed) = initialSelection"
  using rendered_unsynced [of ed]
  by (simp add: unsynced_def setSelection_def getSelection_def)

lemma rendered_scroll:
  "rendered ed \<Longrightarrow>
     scrollScale (handleSyncScroll type e ed) = 1 \<and> hasContentChanged (handleSyncScroll type e ed)"
  using rendered_unsynced [of ed] unsynced_methods(10) [of ed type e]
  by (simp add: unsynced_def)

lemma handleSyncScroll_ignored:
  "shouldSyncScroll ed \<noteq> type \<Longrightarrow> handleSyncScroll type e ed = ed"
  by (auto simp: handleSyncScroll_def)

lemma editor_rendered_eq:
  "editor_rendered =
     (constructor (props_host\<lparr>p_value := Some text_abc\<rparr>) config_sync)
        \<lparr>state_html := HtmlString text_abc,
         trace := [SetStateHtml (HtmlString text_abc)],
         nodeMdText := None, nodeMdPreview := None,
         nodeMdPreviewWrapper := Some wrapper0, nodeEditor := Some codemirror0\<rparr>"
  by (simp add: editor_rendered_def step_def componentDidMount_def renderHTML_def setHtml_def
        on_rendered_def note_effect_def constructor_def props_host_def js_or_def text_abc_def
        replace_sentinel_def sentinel_def)

lemma editor_rendered_rendered: "rendered editor_rendered"
  unfolding editor_rendered_def
  by (intro rendered_step rendered_init) (simp_all add: attaches_textarea_def)

text \<open>
  C2. The round trip of the selection does not hold in the program: no text area is ever
  attached to \<open>nodeMdText\<close>, so \<open>setSelection\<close> does nothing and \<open>getSelection()\<close> returns
  the initial selection in every state of the program (lemma \<open>rendered_selection\<close>). On
  the mounted instance with the text \<open>abc\<close>, after \<open>setSelection({start: 1, end: 2})\<close> the
  selection read back is \<open>{0, 0, ''}\<close> and not \<open>{1, 2, b}\<close>, and it is the same after
  \<open>setSelection({start: 0, end: 3})\<close>.
\<close>

theorem selection_lost_without_textarea:
  "rendered editor_rendered \<and>
   getMdValue editor_rendered = [0x61, 0x62, 0x63] \<and>
   setSelection (1, 2) editor_rendered = editor_rendered \<and>
   getSelection (setSelection (1, 2) editor_rendered) =
     \<lparr>sel_start = 0, sel_end = 0, sel_text = []\<rparr> \<and>
   getSelection (setSelection (1, 2) editor_rendered) \<noteq>
     \<lparr>sel_start = 1, sel_end = 2, sel_text = js_slice 1 2 (getMdValue editor_rendered)\<rparr> \<and>
   getSelection (setSelection (1, 2) editor_rendered) =
     getSelection (setSelection (0, 3) editor_rendered)"
  using editor_rendered_rendered
  by (simp add: editor_rendered_eq getMdValue_def constructor_def props_host_def js_or_def
        text_abc_def replace_sentinel_def sentinel_def setSelection_def getSelection_def
        initialSelection_def)

text \<open>
  C3. The scale ratio is not recomputed in the program: the recomputation asks for the
  text area behind \<open>nodeMdText\<close>, which is never attached, so the ratio stays 1 and the
  content stays marked as changed in every state of the program (lemma
  \<open>rendered_scroll\<close>). On the mounted instance, with the edit pane as the active source,
  both directions enabled, a preview of scroll height 100 and the edit pane at offset 50,
  one scroll event of the edit pane leaves the ratio at 1 and one callback waiting, and
  that callback writes 50 to the preview: for an edit pane of scroll height 200 the offset
  \<open>O / (H1 / H2)\<close> would be 25.
\<close>

theorem scroll_ratio_not_recomputed:
  "rendered editor_rendered \<and>
   shouldSyncScroll editor_rendered = Md \<and> \<not> isSyncingScroll editor_rendered \<and>
   hasContentChanged editor_rendered \<and>
   syncScrollMode (config editor_rendered) = Some [RightFollowLeft, LeftFollowRight] \<and>
   map_option pw_scrollHeight (nodeMdPreviewWrapper editor_rendered) = Some 100 \<and>
   map_option doc_scrollTop (nodeEditor editor_rendered) = Some 50 \<and>
   scrollScale (handleSyncScroll Md 1 editor_rendered) = 1 \<and>
   hasContentChanged (handleSyncScroll Md 1 editor_rendered) \<and>
   pending (handleSyncScroll Md 1 editor_rendered) = [AnimationFrame Md] \<and>
   fst (step (Run 0) (handleSyncScroll Md 1 editor_rendered)) = None \<and>
   scroll_writes (snd (step (Run 0) (handleSyncScroll Md 1 editor_rendered))) =
     [ScrollWrite Html 50] \<and>
   map_option pw_scrollTop
     (nodeMdPreviewWrapper (snd (step (Run 0) (handleSyncScroll Md 1 editor_rendered)))) = Some 50 \<and>
   (50 :: rat) \<noteq> 50 / (200 / 100)"
  using editor_rendered_rendered
  by (simp add: editor_rendered_eq handleSyncScroll_def step_def run_pending_def run_task_def
        dequeue_def animation_frame_def constructor_def props_host_def config_sync_def
        wrapper0_def codemirror0_def note_effect_def enqueue_def scroll_writes_def Let_def)

end
